theory Spec2Isabelle
  imports Main
begin

section \<open>JavaScript values used by the document parser\<close>

text \<open>
  A property that may be \<open>undefined\<close> or \<open>null\<close> is an \<open>option\<close>. The parser tests such
  properties for truthiness (\<open>!x\<close>, \<open>x || y\<close>): \<open>undefined\<close>, \<open>null\<close> and the empty string are
  falsy, every other string is truthy.
\<close>

definition truthy :: "string option \<Rightarrow> bool" where
  "truthy v = (case v of None \<Rightarrow> False | Some s \<Rightarrow> s \<noteq> [])"

text \<open>\<open>a || b\<close> where \<open>b\<close> is a string.\<close>

definition orElse :: "string option \<Rightarrow> string \<Rightarrow> string" where
  "orElse a b = (if truthy a then the a else b)"

text \<open>
  Names of the DSL are ASCII (the lexer's NAME pattern admits ASCII letters, digits,
  \<open>_\<close> and \<open>-\<close> only), so \<open>toLowerCase\<close>, lodash's \<open>lowerFirst\<close> and \<open>upperFirst\<close> are
  modelled on the ASCII letters.
\<close>

definition isUpper :: "char \<Rightarrow> bool" where
  "isUpper c = (65 \<le> (of_char c :: nat) \<and> (of_char c :: nat) \<le> 90)"

definition isLower :: "char \<Rightarrow> bool" where
  "isLower c = (97 \<le> (of_char c :: nat) \<and> (of_char c :: nat) \<le> 122)"

text \<open>
  An upper-case ASCII letter and its lower-case form differ by 32, the bit \<open>digit5\<close> of the
  character, which is clear in \<open>A\<close> to \<open>Z\<close> and set in \<open>a\<close> to \<open>z\<close>.
\<close>

definition toLowerChar :: "char \<Rightarrow> char" where
  "toLowerChar c =
     (if isUpper c
      then Char (digit0 c) (digit1 c) (digit2 c) (digit3 c) (digit4 c) True (digit6 c) (digit7 c)
      else c)"

definition toUpperChar :: "char \<Rightarrow> char" where
  "toUpperChar c =
     (if isLower c
      then Char (digit0 c) (digit1 c) (digit2 c) (digit3 c) (digit4 c) False (digit6 c) (digit7 c)
      else c)"

definition toLowerCase :: "string \<Rightarrow> string" where
  "toLowerCase s = map toLowerChar s"

fun lowerFirst :: "string \<Rightarrow> string" where
  "lowerFirst [] = []"
| "lowerFirst (c # cs) = toLowerChar c # cs"

fun upperFirst :: "string \<Rightarrow> string" where
  "upperFirst [] = []"
| "upperFirst (c # cs) = toUpperChar c # cs"

text \<open>
  An object used as a dictionary is a map from its keys. A property key is a string:
  \<open>obj[undefined]\<close> reads the key \<open>"undefined"\<close>. Keys that name a property of
  \<open>Object.prototype\<close> (\<open>constructor\<close>, \<open>toString\<close>, \<open>__proto__\<close>, ...) are not names of the documents
  considered here.
\<close>

definition propertyKey :: "string option \<Rightarrow> string" where
  "propertyKey v = (case v of None \<Rightarrow> ''undefined'' | Some s \<Rightarrow> s)"


section \<open>The intermediate document\<close>

record validation =
  v_key :: string
  v_value :: "string option"
  v_constant :: bool

record field =
  f_name :: string
  f_type :: string
  f_javadoc :: "string option"
  f_validations :: "validation list"

record entity =
  e_name :: string
  e_tableName :: "string option"
  e_javadoc :: "string option"
  e_body :: "field list"

record relationshipSide =
  s_name :: string
  s_injectedfield :: "string option"
  s_required :: "bool option"
  s_javadoc :: "string option"

record relationship =
  r_cardinality :: string
  r_from :: relationshipSide
  r_to :: relationshipSide

record applicationEntities =
  entityList :: "string list"
  excluded :: "string list"

record application =
  a_config :: "string \<rightharpoonup> string"
  a_entities :: applicationEntities

record enum =
  en_name :: string
  en_values :: "string list"
  en_javadoc :: "string option"

record optionList =
  o_list :: "string list"
  o_excluded :: "string list"

text \<open>
  \<open>d_binary\<close> is \<open>document[optionName]\<close> for a binary option name: the object mapping each
  option value to its entity lists, as its entries in key order (empty when the property is
  an empty object or missing); \<open>document.microservice\<close> is \<open>d_binary doc ''microservice''\<close>.
\<close>

record document =
  d_applications :: "application list"
  d_enums :: "enum list"
  d_entities :: "entity list"
  d_relationships :: "relationship list"
  d_constants :: "string \<rightharpoonup> string"
  d_noClient :: optionList
  d_noServer :: optionList
  d_noFluentMethod :: optionList
  d_filter :: optionList
  d_binary :: "string \<Rightarrow> (string \<times> optionList) list"

record configuration =
  c_document :: "document option"
  c_applicationType :: "string option"
  c_applicationName :: "string option"
  c_generatorVersion :: "string option"


section \<open>The domain objects\<close>

text \<open>
  Modelled from the spec: the classes \<open>JDLObject\<close>, \<open>JDLApplication\<close>, \<open>JDLEntity\<close>, \<open>JDLEnum\<close>,
  \<open>JDLField\<close>, \<open>JDLRelationship\<close>, \<open>JDLValidation\<close>, \<open>JDLUnaryOption\<close> and \<open>JDLBinaryOption\<close>
  are required from \<open>../core\<close> and are not among the sources. Each object holds the properties
  its constructor is given by the parser; a property the parser does not pass is \<open>None\<close>.
  An application holds its entity names as an ordered set: each name once, in the order of
  first occurrence. A relationship is an edge between two entities that exist in the graph:
  its constructor fails when an endpoint is missing.
\<close>

text \<open>
  What a call can throw: the \<open>Error\<close> of the parser itself, with its message, and the
  failure of the constructor of a relationship that is given a missing endpoint.
\<close>

datatype error = Error string | UnresolvedReference

record JDLValidation =
  jv_name :: string
  jv_value :: "string option"

record JDLField =
  jf_name :: string
  jf_type :: string
  jf_validations :: "string \<rightharpoonup> JDLValidation"
  jf_comment :: "string option"

record JDLEntity =
  je_name :: string
  je_tableName :: string
  je_fields :: "string \<rightharpoonup> JDLField"
  je_comment :: "string option"

record JDLEnum =
  jen_name :: string
  jen_values :: "string list"
  jen_comment :: "string option"

primrec orderedSet :: "'a list \<Rightarrow> 'a list" where
  "orderedSet [] = []"
| "orderedSet (x # xs) = x # filter (\<lambda>y. y \<noteq> x) (orderedSet xs)"

record JDLApplication =
  ja_config :: "string \<rightharpoonup> string"
  ja_entities :: "string list"

definition new_JDLApplication :: "(string \<rightharpoonup> string) \<Rightarrow> string list \<Rightarrow> JDLApplication" where
  "new_JDLApplication config ents = \<lparr>ja_config = config, ja_entities = orderedSet ents\<rparr>"

text \<open>
  The object literal that the parser passes to \<open>new JDLRelationship\<close>: the two endpoints are
  looked up in the graph and are \<open>None\<close> when the lookup finds nothing.
\<close>

record JDLRelationshipArgs =
  ra_from :: "JDLEntity option"
  ra_to :: "JDLEntity option"
  ra_type :: string
  ra_injectedFieldInFrom :: "string option"
  ra_injectedFieldInTo :: "string option"
  ra_isInjectedFieldInFromRequired :: "bool option"
  ra_isInjectedFieldInToRequired :: "bool option"
  ra_commentInFrom :: "string option"
  ra_commentInTo :: "string option"

record JDLRelationship =
  jr_from :: JDLEntity
  jr_to :: JDLEntity
  jr_type :: string
  jr_injectedFieldInFrom :: "string option"
  jr_injectedFieldInTo :: "string option"
  jr_isInjectedFieldInFromRequired :: "bool option"
  jr_isInjectedFieldInToRequired :: "bool option"
  jr_commentInFrom :: "string option"
  jr_commentInTo :: "string option"

definition new_JDLRelationship :: "JDLRelationshipArgs \<Rightarrow> error + JDLRelationship" where
  "new_JDLRelationship args =
     (case ra_from args of
        None \<Rightarrow> Inl UnresolvedReference
      | Some sourceEntity \<Rightarrow>
          (case ra_to args of
             None \<Rightarrow> Inl UnresolvedReference
           | Some destinationEntity \<Rightarrow>
               Inr \<lparr>jr_from = sourceEntity, jr_to = destinationEntity,
                    jr_type = ra_type args,
                    jr_injectedFieldInFrom = ra_injectedFieldInFrom args,
                    jr_injectedFieldInTo = ra_injectedFieldInTo args,
                    jr_isInjectedFieldInFromRequired = ra_isInjectedFieldInFromRequired args,
                    jr_isInjectedFieldInToRequired = ra_isInjectedFieldInToRequired args,
                    jr_commentInFrom = ra_commentInFrom args,
                    jr_commentInTo = ra_commentInTo args\<rparr>))"

datatype JDLOption =
  JDLUnaryOption string "string list" "string list"
| JDLBinaryOption string "string option" "string list" "string list option"

text \<open>
  What the parser takes from modules that are not among the sources: \<open>formatComment\<close> of
  \<open>../utils/format_utils\<close>, lodash's \<open>camelCase\<close>, the table \<open>BinaryOptions.Options\<close>
  (the binary option names, in the order of its keys), and the name under which the
  container files an application, which it reads from the application's config (in the
  DSL, its \<open>baseName\<close>).
\<close>

record externals =
  formatComment :: "string option \<Rightarrow> string option"
  camelCase :: "string \<Rightarrow> string"
  BinaryOptions_Options :: "string list"
  applicationNameOf :: "(string \<rightharpoonup> string) \<Rightarrow> string"

text \<open>
  Modelled from the spec: the root container (\<open>JDLObject\<close>) owns applications, entities and
  enums by unique name, and relationships and options as ordered sequences. An object
  added under a name that is already taken replaces the earlier one.
\<close>

record JDLObject =
  applications :: "string \<rightharpoonup> JDLApplication"
  enums :: "string \<rightharpoonup> JDLEnum"
  entities :: "string \<rightharpoonup> JDLEntity"
  relationships :: "JDLRelationship list"
  options :: "JDLOption list"

definition new_JDLObject :: JDLObject where
  "new_JDLObject = \<lparr>applications = Map.empty, enums = Map.empty, entities = Map.empty,
     relationships = [], options = []\<rparr>"

definition addApplication :: "externals \<Rightarrow> JDLObject \<Rightarrow> JDLApplication \<Rightarrow> JDLObject" where
  "addApplication ext obj a =
     obj\<lparr>applications := (applications obj)(applicationNameOf ext (ja_config a) \<mapsto> a)\<rparr>"

definition addEnum :: "JDLObject \<Rightarrow> JDLEnum \<Rightarrow> JDLObject" where
  "addEnum obj e = obj\<lparr>enums := (enums obj)(jen_name e \<mapsto> e)\<rparr>"

definition addEntity :: "JDLObject \<Rightarrow> JDLEntity \<Rightarrow> JDLObject" where
  "addEntity obj e = obj\<lparr>entities := (entities obj)(je_name e \<mapsto> e)\<rparr>"

definition addRelationship :: "JDLObject \<Rightarrow> JDLRelationship \<Rightarrow> JDLObject" where
  "addRelationship obj r = obj\<lparr>relationships := relationships obj @ [r]\<rparr>"

definition addOption :: "JDLObject \<Rightarrow> JDLOption \<Rightarrow> JDLObject" where
  "addOption obj opt = obj\<lparr>options := options obj @ [opt]\<rparr>"

text \<open>
  Modelled from the spec: the constants \<open>ApplicationTypes.MICROSERVICE\<close>,
  \<open>BinaryOptions.Options.MICROSERVICE\<close>, \<open>BinaryOptions.Options.CLIENT_ROOT_FOLDER\<close> and the
  four names of \<open>UnaryOptions\<close> are defined in \<open>../core/jhipster\<close>, which is not among the
  sources; the spec names them "microservice", \<open>clientRootFolder\<close>, skip-client,
  skip-server, no-fluent-method and filter.
\<close>

definition ApplicationTypes_MICROSERVICE :: string where
  "ApplicationTypes_MICROSERVICE = ''microservice''"

definition BinaryOptions_MICROSERVICE :: string where
  "BinaryOptions_MICROSERVICE = ''microservice''"

definition BinaryOptions_CLIENT_ROOT_FOLDER :: string where
  "BinaryOptions_CLIENT_ROOT_FOLDER = ''clientRootFolder''"

definition UnaryOptions_SKIP_CLIENT :: string where
  "UnaryOptions_SKIP_CLIENT = ''skipClient''"

definition UnaryOptions_SKIP_SERVER :: string where
  "UnaryOptions_SKIP_SERVER = ''skipServer''"

definition UnaryOptions_NO_FLUENT_METHOD :: string where
  "UnaryOptions_NO_FLUENT_METHOD = ''noFluentMethod''"

definition UnaryOptions_FILTER :: string where
  "UnaryOptions_FILTER = ''filter''"


section \<open>The document parser\<close>

text \<open>
  The module keeps \<open>configuration\<close>, \<open>jdlObject\<close> and \<open>applicationsPerEntityName\<close> in
  module-level variables. \<open>st_document\<close> is the object \<open>configuration.document\<close> refers to:
  the parser writes into it, so it is part of the state and is returned with the graph.
\<close>

record state =
  st_configuration :: configuration
  st_document :: document
  jdlObject :: JDLObject
  applicationsPerEntityName :: "string \<rightharpoonup> JDLApplication list"

definition USER :: string where
  "USER = ''User''"

definition init :: "configuration \<Rightarrow> document \<Rightarrow> state" where
  "init passedConfiguration doc =
     \<lparr>st_configuration = passedConfiguration, st_document = doc,
      jdlObject = new_JDLObject, applicationsPerEntityName = Map.empty\<rparr>"

subsection \<open>Applications\<close>

definition getApplicationEntities :: "document \<Rightarrow> application \<Rightarrow> string list" where
  "getApplicationEntities doc app =
     (let applicationEntities0 = entityList (a_entities app);
          applicationEntities1 =
            (if ''*'' \<in> set (entityList (a_entities app))
             then map e_name (d_entities doc) else applicationEntities0)
      in if length (excluded (a_entities app)) \<noteq> 0
         then filter (\<lambda>entity. entity \<notin> set (excluded (a_entities app))) applicationEntities1
         else applicationEntities1)"

fun fillApplicationsPerEntityName ::
  "string list \<Rightarrow> JDLApplication \<Rightarrow> (string \<rightharpoonup> JDLApplication list)
     \<Rightarrow> (string \<rightharpoonup> JDLApplication list)" where
  "fillApplicationsPerEntityName [] app m = m"
| "fillApplicationsPerEntityName (entity # rest) app m =
     fillApplicationsPerEntityName rest app
       (m(entity \<mapsto> (case m entity of None \<Rightarrow> [] | Some apps \<Rightarrow> apps) @ [app]))"

text \<open>The body of the \<open>forEach\<close> callback of \<open>fillApplications\<close>, for one application block.\<close>

definition fillApplication :: "externals \<Rightarrow> application \<Rightarrow> state \<Rightarrow> application \<times> state" where
  "fillApplication ext app st =
     (let app' = (if truthy (c_generatorVersion (st_configuration st))
                  then app\<lparr>a_config := (a_config app)(''jhipsterVersion'' \<mapsto>
                         the (c_generatorVersion (st_configuration st)))\<rparr>
                  else app);
          jdlApplication = new_JDLApplication (a_config app')
                             (getApplicationEntities (st_document st) app')
      in (app', st\<lparr>jdlObject := addApplication ext (jdlObject st) jdlApplication,
                   applicationsPerEntityName :=
                     fillApplicationsPerEntityName (ja_entities jdlApplication) jdlApplication
                       (applicationsPerEntityName st)\<rparr>))"

fun forEachApplication ::
  "externals \<Rightarrow> application list \<Rightarrow> state \<Rightarrow> application list \<times> state" where
  "forEachApplication ext [] st = ([], st)"
| "forEachApplication ext (app # rest) st =
     (case fillApplication ext app st of (app', st') \<Rightarrow>
        (case forEachApplication ext rest st' of (rest', st'') \<Rightarrow> (app' # rest', st'')))"

definition fillApplications :: "externals \<Rightarrow> state \<Rightarrow> state" where
  "fillApplications ext st =
     (case forEachApplication ext (d_applications (st_document st)) st of (apps', st') \<Rightarrow>
        st'\<lparr>st_document := (st_document st')\<lparr>d_applications := apps'\<rparr>\<rparr>)"

subsection \<open>Enums\<close>

fun forEachEnum :: "externals \<Rightarrow> enum list \<Rightarrow> JDLObject \<Rightarrow> JDLObject" where
  "forEachEnum ext [] obj = obj"
| "forEachEnum ext (enumObj # rest) obj =
     forEachEnum ext rest
       (addEnum obj \<lparr>jen_name = en_name enumObj, jen_values = en_values enumObj,
                     jen_comment = formatComment ext (en_javadoc enumObj)\<rparr>)"

definition fillEnums :: "externals \<Rightarrow> state \<Rightarrow> state" where
  "fillEnums ext st = st\<lparr>jdlObject := forEachEnum ext (d_enums (st_document st)) (jdlObject st)\<rparr>"

subsection \<open>Entities, fields and validations\<close>

text \<open>
  \<open>getValidations\<close> overwrites \<open>validation.value\<close> of a validation flagged \<open>constant\<close> with the
  entry of the constants table, and stores the (possibly overwritten) value. It returns the
  validations as they are after the call together with the mapping built.
\<close>

fun forEachValidation ::
  "(string \<rightharpoonup> string) \<Rightarrow> validation list \<Rightarrow> (string \<rightharpoonup> JDLValidation)
     \<Rightarrow> validation list \<times> (string \<rightharpoonup> JDLValidation)" where
  "forEachValidation constants [] validations = ([], validations)"
| "forEachValidation constants (v # rest) validations =
     (let v' = (if v_constant v then v\<lparr>v_value := constants (propertyKey (v_value v))\<rparr> else v)
      in case forEachValidation constants rest
                (validations(v_key v' \<mapsto> \<lparr>jv_name = v_key v', jv_value = v_value v'\<rparr>))
         of (rest', validations') \<Rightarrow> (v' # rest', validations'))"

definition getValidations ::
  "(string \<rightharpoonup> string) \<Rightarrow> field \<Rightarrow> field \<times> (string \<rightharpoonup> JDLValidation)" where
  "getValidations constants fld =
     (case forEachValidation constants (f_validations fld) Map.empty of
        (vs', validations) \<Rightarrow> (fld\<lparr>f_validations := vs'\<rparr>, validations))"

fun forEachField ::
  "externals \<Rightarrow> (string \<rightharpoonup> string) \<Rightarrow> field list \<Rightarrow> (string \<rightharpoonup> JDLField)
     \<Rightarrow> field list \<times> (string \<rightharpoonup> JDLField)" where
  "forEachField ext constants [] flds = ([], flds)"
| "forEachField ext constants (fld # rest) flds =
     (let fieldName = lowerFirst (f_name fld)
      in if toLowerCase fieldName = ''id''
         then (case forEachField ext constants rest flds of
                 (rest', flds') \<Rightarrow> (fld # rest', flds'))
         else (case getValidations constants fld of (fld', validations) \<Rightarrow>
                 let fieldObject0 = \<lparr>jf_name = fieldName, jf_type = f_type fld,
                                      jf_validations = validations, jf_comment = None\<rparr>;
                     fieldObject = (if truthy (f_javadoc fld)
                                    then fieldObject0\<lparr>jf_comment := formatComment ext (f_javadoc fld)\<rparr>
                                    else fieldObject0)
                 in case forEachField ext constants rest (flds(fieldName \<mapsto> fieldObject)) of
                      (rest', flds') \<Rightarrow> (fld' # rest', flds')))"

definition getFields ::
  "externals \<Rightarrow> (string \<rightharpoonup> string) \<Rightarrow> entity \<Rightarrow> entity \<times> (string \<rightharpoonup> JDLField)" where
  "getFields ext constants ent =
     (case forEachField ext constants (e_body ent) Map.empty of
        (body', flds) \<Rightarrow> (ent\<lparr>e_body := body'\<rparr>, flds))"

definition fillClassAndItsFields ::
  "externals \<Rightarrow> (string \<rightharpoonup> string) \<Rightarrow> entity \<Rightarrow> JDLObject \<Rightarrow> entity \<times> JDLObject" where
  "fillClassAndItsFields ext constants ent obj =
     (let ent1 = ent\<lparr>e_tableName := Some (orElse (e_tableName ent) (e_name ent))\<rparr>
      in case getFields ext constants ent1 of (ent2, flds) \<Rightarrow>
           (ent2, addEntity obj \<lparr>je_name = e_name ent1, je_tableName = the (e_tableName ent1),
                                  je_fields = flds,
                                  je_comment = formatComment ext (e_javadoc ent1)\<rparr>))"

fun forEachEntity ::
  "externals \<Rightarrow> (string \<rightharpoonup> string) \<Rightarrow> entity list \<Rightarrow> JDLObject \<Rightarrow> entity list \<times> JDLObject" where
  "forEachEntity ext constants [] obj = ([], obj)"
| "forEachEntity ext constants (ent # rest) obj =
     (case fillClassAndItsFields ext constants ent obj of (ent', obj') \<Rightarrow>
        (case forEachEntity ext constants rest obj' of (rest', obj'') \<Rightarrow> (ent' # rest', obj'')))"

definition getUserRelationships :: "document \<Rightarrow> relationship list" where
  "getUserRelationships doc =
     filter (\<lambda>val. toLowerCase (s_name (r_to val)) = toLowerCase USER) (d_relationships doc)"

definition addUserEntity :: "JDLObject \<Rightarrow> JDLObject" where
  "addUserEntity obj =
     addEntity obj \<lparr>je_name = USER, je_tableName = ''jhi_user'', je_fields = Map.empty,
                    je_comment = None\<rparr>"

definition addUserEntityIfNeedBe :: "state \<Rightarrow> state" where
  "addUserEntityIfNeedBe st =
     (let relationshipsToTheUserEntity = getUserRelationships (st_document st)
      in if length relationshipsToTheUserEntity \<noteq> 0 \<and> entities (jdlObject st) USER = None
         then st\<lparr>jdlObject := addUserEntity (jdlObject st)\<rparr>
         else st)"

definition fillClassesAndFields :: "externals \<Rightarrow> state \<Rightarrow> state" where
  "fillClassesAndFields ext st =
     (case forEachEntity ext (d_constants (st_document st)) (d_entities (st_document st))
             (jdlObject st) of
        (ents', obj') \<Rightarrow>
          addUserEntityIfNeedBe
            (st\<lparr>st_document := (st_document st)\<lparr>d_entities := ents'\<rparr>, jdlObject := obj'\<rparr>))"

subsection \<open>Relationships\<close>

text \<open>
  The body of the loop of \<open>fillAssociations\<close>, for one relationship. The two endpoints are
  looked up under the names exactly as the document writes them; when the constructor
  fails, the exception leaves the loop and the call.
\<close>

definition fillAssociation ::
  "externals \<Rightarrow> relationship \<Rightarrow> JDLObject \<Rightarrow> error + relationship \<times> JDLObject" where
  "fillAssociation ext rel obj =
     (let rel' = (if \<not> truthy (s_injectedfield (r_from rel)) \<and> \<not> truthy (s_injectedfield (r_to rel))
                  then rel\<lparr>r_from := (r_from rel)\<lparr>s_injectedfield :=
                               Some (lowerFirst (s_name (r_from rel)))\<rparr>\<rparr>
                  else rel)
      in case new_JDLRelationship
            \<lparr>ra_from = entities obj (s_name (r_from rel')),
             ra_to = entities obj (s_name (r_to rel')),
             ra_type = upperFirst (camelCase ext (r_cardinality rel')),
             ra_injectedFieldInFrom = s_injectedfield (r_from rel'),
             ra_injectedFieldInTo = s_injectedfield (r_to rel'),
             ra_isInjectedFieldInFromRequired = s_required (r_from rel'),
             ra_isInjectedFieldInToRequired = s_required (r_to rel'),
             ra_commentInFrom = formatComment ext (s_javadoc (r_from rel')),
             ra_commentInTo = formatComment ext (s_javadoc (r_to rel'))\<rparr> of
           Inl e \<Rightarrow> Inl e
         | Inr jdlRelationship \<Rightarrow> Inr (rel', addRelationship obj jdlRelationship))"

fun forEachRelationship ::
  "externals \<Rightarrow> relationship list \<Rightarrow> JDLObject \<Rightarrow> error + relationship list \<times> JDLObject" where
  "forEachRelationship ext [] obj = Inr ([], obj)"
| "forEachRelationship ext (rel # rest) obj =
     (case fillAssociation ext rel obj of
        Inl e \<Rightarrow> Inl e
      | Inr (rel', obj') \<Rightarrow>
          (case forEachRelationship ext rest obj' of
             Inl e \<Rightarrow> Inl e
           | Inr (rest', obj'') \<Rightarrow> Inr (rel' # rest', obj'')))"

definition fillAssociations :: "externals \<Rightarrow> state \<Rightarrow> error + state" where
  "fillAssociations ext st =
     (case forEachRelationship ext (d_relationships (st_document st)) (jdlObject st) of
        Inl e \<Rightarrow> Inl e
      | Inr (rels', obj') \<Rightarrow>
          Inr (st\<lparr>st_document := (st_document st)\<lparr>d_relationships := rels'\<rparr>,
                  jdlObject := obj'\<rparr>))"

subsection \<open>Options\<close>

definition fillUnaryOptions :: "state \<Rightarrow> state" where
  "fillUnaryOptions st =
     (let doc = st_document st;
          obj0 = jdlObject st;
          obj1 = (if length (o_list (d_noClient doc)) \<noteq> 0
                  then addOption obj0 (JDLUnaryOption UnaryOptions_SKIP_CLIENT
                         (o_list (d_noClient doc)) (o_excluded (d_noClient doc)))
                  else obj0);
          obj2 = (if length (o_list (d_noServer doc)) \<noteq> 0
                  then addOption obj1 (JDLUnaryOption UnaryOptions_SKIP_SERVER
                         (o_list (d_noServer doc)) (o_excluded (d_noServer doc)))
                  else obj1);
          obj3 = (if length (o_list (d_noFluentMethod doc)) \<noteq> 0
                  then addOption obj2 (JDLUnaryOption UnaryOptions_NO_FLUENT_METHOD
                         (o_list (d_noFluentMethod doc)) (o_excluded (d_noFluentMethod doc)))
                  else obj2);
          obj4 = (if length (o_list (d_filter doc)) \<noteq> 0
                  then addOption obj3 (JDLUnaryOption UnaryOptions_FILTER
                         (o_list (d_filter doc)) (o_excluded (d_filter doc)))
                  else obj3)
      in st\<lparr>jdlObject := obj4\<rparr>)"

text \<open>
  \<open>addBinaryOption(key, value)\<close> reads \<open>document[key][value]\<close>; \<open>value\<close> is a key enumerated
  from that very object, so the entry read is the entry being visited.
\<close>

definition addBinaryOption :: "string \<Rightarrow> string \<times> optionList \<Rightarrow> JDLObject \<Rightarrow> JDLObject" where
  "addBinaryOption optKey entry obj =
     addOption obj (JDLBinaryOption optKey (Some (fst entry)) (o_list (snd entry))
                      (Some (o_excluded (snd entry))))"

text \<open>
  The inner \<open>_.forEach\<close> of \<open>fillBinaryOptions\<close>: an entry of \<open>clientRootFolder\<close> in a
  microservice is skipped (after a warning is logged).
\<close>

fun forEachOptionEntry ::
  "string option \<Rightarrow> string \<Rightarrow> (string \<times> optionList) list \<Rightarrow> JDLObject \<Rightarrow> JDLObject" where
  "forEachOptionEntry appType optionValue [] obj = obj"
| "forEachOptionEntry appType optionValue (entry # rest) obj =
     (if appType = Some ApplicationTypes_MICROSERVICE
         \<and> optionValue = BinaryOptions_CLIENT_ROOT_FOLDER
      then forEachOptionEntry appType optionValue rest obj
      else forEachOptionEntry appType optionValue rest (addBinaryOption optionValue entry obj))"

fun forEachBinaryOption ::
  "string option \<Rightarrow> document \<Rightarrow> string list \<Rightarrow> JDLObject \<Rightarrow> JDLObject" where
  "forEachBinaryOption appType doc [] obj = obj"
| "forEachBinaryOption appType doc (optionValue # rest) obj =
     forEachBinaryOption appType doc rest
       (forEachOptionEntry appType optionValue (d_binary doc optionValue) obj)"

definition fillBinaryOptions :: "externals \<Rightarrow> state \<Rightarrow> state" where
  "fillBinaryOptions ext st =
     st\<lparr>jdlObject := forEachBinaryOption (c_applicationType (st_configuration st))
                        (st_document st) (BinaryOptions_Options ext) (jdlObject st)\<rparr>"

definition globallyAddMicroserviceOption :: "string option \<Rightarrow> state \<Rightarrow> state" where
  "globallyAddMicroserviceOption applicationName st =
     st\<lparr>jdlObject := addOption (jdlObject st)
          (JDLBinaryOption BinaryOptions_MICROSERVICE applicationName
             (map e_name (d_entities (st_document st))) None)\<rparr>"

definition fillOptions :: "externals \<Rightarrow> state \<Rightarrow> state" where
  "fillOptions ext st =
     (let st1 = fillBinaryOptions ext (fillUnaryOptions st)
      in if c_applicationType (st_configuration st1) = Some ApplicationTypes_MICROSERVICE
            \<and> length (d_binary (st_document st1) ''microservice'') = 0
         then globallyAddMicroserviceOption (c_applicationName (st_configuration st1)) st1
         else st1)"

subsection \<open>The entry point\<close>

text \<open>
  \<open>parseFromConfigurationObject\<close> throws when \<open>configuration.document\<close> is missing; otherwise
  it runs the five steps in order, and an exception of the fourth ends the call. The
  JavaScript function returns \<open>jdlObject\<close>; the final state also shows the document as the
  call leaves it.
\<close>

definition parseFromConfigurationObject :: "externals \<Rightarrow> configuration \<Rightarrow> error + state" where
  "parseFromConfigurationObject ext config =
     (case c_document config of
        None \<Rightarrow> Inl (Error ''The parsed JDL content must be passed.'')
      | Some doc \<Rightarrow>
          (case fillAssociations ext (fillClassesAndFields ext
                  (fillEnums ext (fillApplications ext (init config doc)))) of
             Inl e \<Rightarrow> Inl e
           | Inr st \<Rightarrow> Inr (fillOptions ext st)))"

section \<open>The token catalog\<close>

text \<open>
  The lexer module (\<open>lib/dsl/lexer.js\<close>) builds its token types with chevrotain's
  \<open>createToken\<close> and hands them, in creation order, to chevrotain's \<open>Lexer\<close>. A pattern is a
  string literal, one of the six regular expressions of the module, or \<open>Lexer.NA\<close> (a
  category, never matched against the text).
\<close>

datatype regex =
  RX_whitespace
| RX_comment
| RX_name
| RX_regex
| RX_integer
| RX_string

datatype pattern = Str string | Rx regex | NA

datatype group = SKIPPED

text \<open>
  A token type as chevrotain keeps it. A token type refers to other token types (its
  fallback and its categories), which are created before it and never change.
\<close>

datatype TokenType = TokenType
  (tokenName: string)
  (PATTERN: pattern)
  (LONGER_ALT: "TokenType option")
  (CATEGORIES: "TokenType list")
  (GROUP: "group option")
  (LABEL: "string option")
  (LINE_BREAKS: "bool option")

text \<open>
  The configuration object passed to \<open>createToken\<close>. \<open>categories\<close> is an array of token types;
  a single token type (\<open>categories: KEYWORD\<close>) stands for the one-element array.
\<close>

record tokenConfig =
  name :: string
  pattern :: pattern
  longer_alt :: "TokenType option"
  categories :: "TokenType list option"
  group :: "group option"
  label :: "string option"
  line_breaks :: "bool option"

text \<open>
  The character classes of the regular expressions, on ASCII text:
  \<open>\d\<close>, \<open>[a-zA-Z_]\<close>, \<open>[a-zA-Z_\-\d]\<close> and \<open>\s\<close> (tab, line feed, vertical tab, form feed,
  carriage return, space).
\<close>

definition isDigit :: "char \<Rightarrow> bool" where
  "isDigit c = (48 \<le> (of_char c :: nat) \<and> (of_char c :: nat) \<le> 57)"

definition isNameStart :: "char \<Rightarrow> bool" where
  "isNameStart c =
     ((97 \<le> (of_char c :: nat) \<and> (of_char c :: nat) \<le> 122)
      \<or> (65 \<le> (of_char c :: nat) \<and> (of_char c :: nat) \<le> 90) \<or> c = CHR ''_'')"

definition isNameChar :: "char \<Rightarrow> bool" where
  "isNameChar c = (isNameStart c \<or> c = CHR ''-'' \<or> isDigit c)"

definition isSpace :: "char \<Rightarrow> bool" where
  "isSpace c = ((9 \<le> (of_char c :: nat) \<and> (of_char c :: nat) \<le> 13) \<or> c = CHR '' '')"

text \<open>
  \<open>matchRegex r text\<close> is the length of the match of \<open>r\<close> at the start of \<open>text\<close>, if there is
  one:
  \<^item> \<open>RX_whitespace\<close> is \<open>/\s+/\<close>;
  \<^item> \<open>RX_comment\<close> is \<open>/\/\*([\s\S]*?)\*\//\<close>: \<open>/*\<close>, then up to the first \<open>*/\<close>
    (\<open>findCommentEnd\<close> gives the length up to and including it);
  \<^item> \<open>RX_name\<close> is \<open>namePattern\<close>, \<open>/[a-zA-Z_][a-zA-Z_\-\d]*/\<close>;
  \<^item> \<open>RX_regex\<close> is \<open>/\/[^\n\r/]*\//\<close>;
  \<^item> \<open>RX_integer\<close> is \<open>/-?\d+/\<close>;
  \<^item> \<open>RX_string\<close> is \<open>/"(?:[^"])*"/\<close>.
\<close>

fun findCommentEnd :: "string \<Rightarrow> nat option" where
  "findCommentEnd (c1 # c2 # cs) =
     (if c1 = CHR ''*'' \<and> c2 = CHR ''/'' then Some 2
      else map_option Suc (findCommentEnd (c2 # cs)))"
| "findCommentEnd cs = None"

fun matchRegex :: "regex \<Rightarrow> string \<Rightarrow> nat option" where
  "matchRegex RX_whitespace text =
     (let n = length (takeWhile isSpace text) in if 0 < n then Some n else None)"
| "matchRegex RX_comment text =
     (case text of
        c1 # c2 # rest \<Rightarrow>
          if c1 = CHR ''/'' \<and> c2 = CHR ''*''
          then map_option (\<lambda>n. 2 + n) (findCommentEnd rest) else None
      | _ \<Rightarrow> None)"
| "matchRegex RX_name text =
     (case text of
        c # rest \<Rightarrow> if isNameStart c then Some (1 + length (takeWhile isNameChar rest)) else None
      | [] \<Rightarrow> None)"
| "matchRegex RX_regex text =
     (case text of
        c # rest \<Rightarrow>
          if c = CHR ''/''
          then (let body = takeWhile (\<lambda>c. c \<noteq> CHR 0x0A \<and> c \<noteq> CHR 0x0D \<and> c \<noteq> CHR ''/'') rest
                in case drop (length body) rest of
                     d # _ \<Rightarrow> if d = CHR ''/'' then Some (length body + 2) else None
                   | [] \<Rightarrow> None)
          else None
      | [] \<Rightarrow> None)"
| "matchRegex RX_integer text =
     (let digits = (case text of c # rest \<Rightarrow> if c = CHR ''-'' then rest else text | [] \<Rightarrow> text);
          n = length (takeWhile isDigit digits)
      in if 0 < n then Some (length text - length digits + n) else None)"
| "matchRegex RX_string text =
     (case text of
        c # rest \<Rightarrow>
          if c = CHR 0x22
          then (let body = takeWhile (\<lambda>c. c \<noteq> CHR 0x22) rest
                in case drop (length body) rest of
                     d # _ \<Rightarrow> Some (length body + 2)
                   | [] \<Rightarrow> None)
          else None
      | [] \<Rightarrow> None)"

text \<open>\<open>regex.test(s)\<close>: the expression is not anchored, it matches somewhere in \<open>s\<close>.\<close>

fun regexTest :: "regex \<Rightarrow> string \<Rightarrow> bool" where
  "regexTest r [] = (matchRegex r [] \<noteq> None)"
| "regexTest r (c # cs) = (matchRegex r (c # cs) \<noteq> None \<or> regexTest r cs)"

text \<open>
  chevrotain's \<open>createToken\<close> keeps the properties of the configuration; a missing
  \<open>categories\<close> is the empty list.
\<close>

definition chevrotain_createToken :: "tokenConfig \<Rightarrow> TokenType" where
  "chevrotain_createToken config =
     TokenType (name config) (pattern config) (longer_alt config)
       (case categories config of None \<Rightarrow> [] | Some cs \<Rightarrow> cs)
       (group config) (label config) (line_breaks config)"

definition tokenConfig :: "string \<Rightarrow> pattern \<Rightarrow> tokenConfig" where
  "tokenConfig n p = \<lparr>name = n, pattern = p, longer_alt = None, categories = None,
                      group = None, label = None, line_breaks = None\<rparr>"

definition NAME :: TokenType where
  "NAME = chevrotain_createToken (tokenConfig ''NAME'' (Rx RX_name))"

definition KEYWORD :: TokenType where
  "KEYWORD = chevrotain_createToken
     ((tokenConfig ''KEYWORD'' NA)\<lparr>longer_alt := Some NAME, categories := Some [NAME]\<rparr>)"

text \<open>
  The module's own \<open>createToken\<close>: a string pattern in which \<open>namePattern\<close> matches gets
  \<open>NAME\<close> as \<open>longer_alt\<close> and \<open>KEYWORD\<close> as (last) category; a string pattern without a label is
  labelled with the pattern in single quotes.
\<close>

definition createToken :: "tokenConfig \<Rightarrow> TokenType" where
  "createToken config =
     (let config1 =
            (case pattern config of
               Str s \<Rightarrow>
                 if regexTest RX_name s
                 then config\<lparr>longer_alt := Some NAME,
                             categories := (case categories config of
                                              None \<Rightarrow> Some [KEYWORD]
                                            | Some cs \<Rightarrow> Some (cs @ [KEYWORD]))\<rparr>
                 else config
             | _ \<Rightarrow> config);
          config2 =
            (case pattern config1 of
               Str s \<Rightarrow>
                 if label config1 = None
                 then config1\<lparr>label := Some ([CHR 0x27] @ s @ [CHR 0x27])\<rparr>
                 else config1
             | _ \<Rightarrow> config1)
      in chevrotain_createToken config2)"

text \<open>
  chevrotain's token matching in the parser: a token of type \<open>t\<close> is accepted where
  \<open>expected\<close> is consumed if \<open>t\<close> is \<open>expected\<close> or one of its categories, transitively, is.
\<close>

fun isA :: "TokenType \<Rightarrow> TokenType \<Rightarrow> bool" where
  "isA (TokenType n p alt cats g l lb) expected =
     (n = tokenName expected \<or> (\<exists>c \<in> set cats. isA c expected))"


text \<open>
  The token types of the module in the order of their creation. \<open>tokenConfigs\<close> lists the
  configuration objects of the calls of \<open>createToken\<close>; \<open>NAME\<close> is added to \<open>tokens\<close> last, and
  \<open>KEYWORD\<close> is not among them.
\<close>

definition BOOLEAN :: TokenType where
  "BOOLEAN = createToken (tokenConfig ''BOOLEAN'' NA)"

definition CONFIG_KEY :: TokenType where
  "CONFIG_KEY = createToken (tokenConfig ''CONFIG_KEY'' NA)"

definition MIN_MAX_KEYWORD :: TokenType where
  "MIN_MAX_KEYWORD = createToken ((tokenConfig ''MIN_MAX_KEYWORD'' NA)\<lparr>categories := Some [KEYWORD]\<rparr>)"

definition tokenConfigs :: "tokenConfig list" where
  "tokenConfigs =
     [
      tokenConfig ''BOOLEAN'' NA,
      tokenConfig ''CONFIG_KEY'' NA,
      (tokenConfig ''WHITESPACE'' (Rx RX_whitespace))\<lparr>group := Some SKIPPED, line_breaks := Some True\<rparr>,
      (tokenConfig ''COMMENT'' (Rx RX_comment))\<lparr>line_breaks := Some True\<rparr>,
      tokenConfig ''CONFIG'' (Str ''config''),
      tokenConfig ''ENTITIES'' (Str ''entities''),
      (tokenConfig ''BASE_NAME'' (Str ''baseName''))\<lparr>categories := Some [CONFIG_KEY]\<rparr>,
      (tokenConfig ''PATH'' (Str ''path''))\<lparr>categories := Some [CONFIG_KEY]\<rparr>,
      (tokenConfig ''PACKAGE_NAME'' (Str ''packageName''))\<lparr>categories := Some [CONFIG_KEY]\<rparr>,
      (tokenConfig ''AUTHENTICATION_TYPE'' (Str ''authenticationType''))\<lparr>categories := Some [CONFIG_KEY]\<rparr>,
      (tokenConfig ''HIBERNATE_CACHE'' (Str ''hibernateCache''))\<lparr>categories := Some [CONFIG_KEY]\<rparr>,
      (tokenConfig ''CLUSTERED_HTTP_SESSION'' (Str ''clusteredHttpSession''))\<lparr>categories := Some [CONFIG_KEY]\<rparr>,
      (tokenConfig ''WEBSOCKET'' (Str ''websocket''))\<lparr>categories := Some [CONFIG_KEY]\<rparr>,
      (tokenConfig ''DATABASE_TYPE'' (Str ''databaseType''))\<lparr>categories := Some [CONFIG_KEY]\<rparr>,
      (tokenConfig ''DEV_DATABASE_TYPE'' (Str ''devDatabaseType''))\<lparr>categories := Some [CONFIG_KEY]\<rparr>,
      (tokenConfig ''PROD_DATABASE_TYPE'' (Str ''prodDatabaseType''))\<lparr>categories := Some [CONFIG_KEY]\<rparr>,
      (tokenConfig ''USE_COMPASS'' (Str ''useCompass''))\<lparr>categories := Some [CONFIG_KEY]\<rparr>,
      (tokenConfig ''BUILD_TOOL'' (Str ''buildTool''))\<lparr>categories := Some [CONFIG_KEY]\<rparr>,
      (tokenConfig ''SEARCH_ENGINE'' (Str ''searchEngine''))\<lparr>categories := Some [CONFIG_KEY]\<rparr>,
      (tokenConfig ''ENABLE_TRANSLATION'' (Str ''enableTranslation''))\<lparr>categories := Some [CONFIG_KEY]\<rparr>,
      (tokenConfig ''APPLICATION_TYPE'' (Str ''applicationType''))\<lparr>categories := Some [CONFIG_KEY]\<rparr>,
      tokenConfig ''APPLICATION'' (Str ''application''),
      (tokenConfig ''TEST_FRAMEWORK'' (Str ''testFrameworks''))\<lparr>categories := Some [CONFIG_KEY]\<rparr>,
      (tokenConfig ''LANGUAGES'' (Str ''languages''))\<lparr>categories := Some [CONFIG_KEY]\<rparr>,
      (tokenConfig ''SERVER_PORT'' (Str ''serverPort''))\<lparr>categories := Some [CONFIG_KEY]\<rparr>,
      (tokenConfig ''ENABLE_SOCIAL_SIGN_IN'' (Str ''enableSocialSignIn''))\<lparr>categories := Some [CONFIG_KEY]\<rparr>,
      (tokenConfig ''USE_SASS'' (Str ''useSass''))\<lparr>categories := Some [CONFIG_KEY]\<rparr>,
      (tokenConfig ''JHI_PREFIX'' (Str ''jhiPrefix''))\<lparr>categories := Some [CONFIG_KEY]\<rparr>,
      (tokenConfig ''MESSAGE_BROKER'' (Str ''messageBroker''))\<lparr>categories := Some [CONFIG_KEY]\<rparr>,
      (tokenConfig ''SERVICE_DISCOVERY_TYPE'' (Str ''serviceDiscoveryType''))\<lparr>categories := Some [CONFIG_KEY]\<rparr>,
      (tokenConfig ''CLIENT_PACKAGE_MANAGER'' (Str ''clientPackageManager''))\<lparr>categories := Some [CONFIG_KEY]\<rparr>,
      (tokenConfig ''CLIENT_FRAMEWORK'' (Str ''clientFramework''))\<lparr>categories := Some [CONFIG_KEY]\<rparr>,
      tokenConfig ''CLIENT_ROOT_FOLDER'' (Str ''clientRootFolder''),
      (tokenConfig ''NATIVE_LANGUAGE'' (Str ''nativeLanguage''))\<lparr>categories := Some [CONFIG_KEY]\<rparr>,
      (tokenConfig ''FRONT_END_BUILDER'' (Str ''frontendBuilder''))\<lparr>categories := Some [CONFIG_KEY]\<rparr>,
      (tokenConfig ''SKIP_USER_MANAGEMENT'' (Str ''skipUserManagement''))\<lparr>categories := Some [CONFIG_KEY]\<rparr>,
      tokenConfig ''ENABLE_SWAGGER_CODEGEN'' (Str ''enableSwaggerCodegen''),
      (tokenConfig ''TRUE'' (Str ''true''))\<lparr>categories := Some [BOOLEAN]\<rparr>,
      (tokenConfig ''FALSE'' (Str ''false''))\<lparr>categories := Some [BOOLEAN]\<rparr>,
      tokenConfig ''ENTITY'' (Str ''entity''),
      tokenConfig ''RELATIONSHIP'' (Str ''relationship''),
      tokenConfig ''ENUM'' (Str ''enum''),
      tokenConfig ''ONE_TO_ONE'' (Str ''OneToOne''),
      tokenConfig ''ONE_TO_MANY'' (Str ''OneToMany''),
      tokenConfig ''MANY_TO_ONE'' (Str ''ManyToOne''),
      tokenConfig ''MANY_TO_MANY'' (Str ''ManyToMany''),
      tokenConfig ''TO'' (Str ''to''),
      tokenConfig ''ALL'' (Str ''all''),
      tokenConfig ''STAR'' (Str ''*''),
      tokenConfig ''WITH'' (Str ''with''),
      tokenConfig ''EXCEPT'' (Str ''except''),
      tokenConfig ''NO_FLUENT_METHOD'' (Str ''noFluentMethod''),
      tokenConfig ''DTO'' (Str ''dto''),
      tokenConfig ''PAGINATE'' (Str ''paginate''),
      tokenConfig ''SERVICE'' (Str ''service''),
      tokenConfig ''MICROSERVICE'' (Str ''microservice''),
      tokenConfig ''SEARCH'' (Str ''search''),
      (tokenConfig ''SKIP_CLIENT'' (Str ''skipClient''))\<lparr>categories := Some [CONFIG_KEY]\<rparr>,
      (tokenConfig ''SKIP_SERVER'' (Str ''skipServer''))\<lparr>categories := Some [CONFIG_KEY]\<rparr>,
      tokenConfig ''ANGULAR_SUFFIX'' (Str ''angularSuffix''),
      tokenConfig ''FILTER'' (Str ''filter''),
      tokenConfig ''REQUIRED'' (Str ''required''),
      (tokenConfig ''MIN_MAX_KEYWORD'' NA)\<lparr>categories := Some [KEYWORD]\<rparr>,
      (tokenConfig ''MINLENGTH'' (Str ''minlength''))\<lparr>categories := Some [MIN_MAX_KEYWORD]\<rparr>,
      (tokenConfig ''MAXLENGTH'' (Str ''maxlength''))\<lparr>categories := Some [MIN_MAX_KEYWORD]\<rparr>,
      (tokenConfig ''MINBYTES'' (Str ''minbytes''))\<lparr>categories := Some [MIN_MAX_KEYWORD]\<rparr>,
      (tokenConfig ''MAXBYTES'' (Str ''maxbytes''))\<lparr>categories := Some [MIN_MAX_KEYWORD]\<rparr>,
      (tokenConfig ''MAX'' (Str ''max''))\<lparr>categories := Some [MIN_MAX_KEYWORD]\<rparr>,
      (tokenConfig ''MIN'' (Str ''min''))\<lparr>categories := Some [MIN_MAX_KEYWORD]\<rparr>,
      tokenConfig ''PATTERN'' (Str ''pattern''),
      tokenConfig ''REGEX'' (Rx RX_regex),
      tokenConfig ''INTEGER'' (Rx RX_integer),
      tokenConfig ''STRING'' (Rx RX_string),
      tokenConfig ''LPAREN'' (Str ''(''),
      tokenConfig ''RPAREN'' (Str '')''),
      tokenConfig ''LCURLY'' (Str ''{''),
      tokenConfig ''RCURLY'' (Str ''}''),
      tokenConfig ''LSQUARE'' (Str ''[''),
      tokenConfig ''RSQUARE'' (Str '']''),
      tokenConfig ''COMMA'' (Str '',''),
      tokenConfig ''EQUALS'' (Str ''=''),
      tokenConfig ''DOT'' (Str ''.'')
     ]"

definition tokens :: "TokenType list" where
  "tokens = map createToken tokenConfigs @ [NAME]"

definition JDLLexer :: "TokenType list" where
  "JDLLexer = tokens"

section \<open>The tokenizer\<close>

text \<open>
  chevrotain's \<open>Lexer.tokenize\<close>. At the current offset the token types are tried in order
  and the first whose pattern matches is taken (a string pattern matches when the text
  continues with it; chevrotain rejects patterns that match the empty string); if that type
  has a \<open>longer_alt\<close> whose pattern matches a longer text there, the \<open>longer_alt\<close> is taken
  instead. A token of group \<open>SKIPPED\<close> is consumed and not emitted. Where nothing matches,
  characters are dropped up to the next offset at which something matches, and one error is
  recorded for them.
\<close>

fun startsWith :: "string \<Rightarrow> string \<Rightarrow> bool" where
  "startsWith text [] = True"
| "startsWith [] (c # cs) = False"
| "startsWith (t # ts) (c # cs) = (t = c \<and> startsWith ts cs)"

fun matchPattern :: "pattern \<Rightarrow> string \<Rightarrow> nat option" where
  "matchPattern (Str s) text = (if s \<noteq> [] \<and> startsWith text s then Some (length s) else None)"
| "matchPattern (Rx r) text = matchRegex r text"
| "matchPattern NA text = None"

fun matchToken :: "TokenType list \<Rightarrow> string \<Rightarrow> (TokenType \<times> nat) option" where
  "matchToken [] text = None"
| "matchToken (t # ts) text =
     (case matchPattern (PATTERN t) text of
        None \<Rightarrow> matchToken ts text
      | Some n \<Rightarrow>
          (case LONGER_ALT t of
             None \<Rightarrow> Some (t, n)
           | Some alt \<Rightarrow>
               (case matchPattern (PATTERN alt) text of
                  None \<Rightarrow> Some (t, n)
                | Some m \<Rightarrow> if n < m then Some (alt, m) else Some (t, n))))"

record IToken =
  image :: string
  startOffset :: nat
  tokenType :: TokenType

record ILexingError =
  offset :: nat
  length_err :: nat

fun resync :: "TokenType list \<Rightarrow> string \<Rightarrow> nat" where
  "resync types [] = 0"
| "resync types (c # cs) = (if matchToken types (c # cs) \<noteq> None then 0 else Suc (resync types cs))"

lemma matchRegex_bounds: "matchRegex r text = Some n \<Longrightarrow> 0 < n"
  by (cases r) (auto simp: Let_def split: list.splits if_splits)

lemma matchPattern_pos: "matchPattern p text = Some n \<Longrightarrow> 0 < n"
  by (cases p) (auto dest: matchRegex_bounds split: if_splits)

lemma matchToken_pos: "matchToken types text = Some (t, n) \<Longrightarrow> 0 < n"
  by (induction types) (auto dest: matchPattern_pos split: option.splits if_splits)

function tokenizeFrom :: "TokenType list \<Rightarrow> string \<Rightarrow> nat \<Rightarrow> IToken list \<times> ILexingError list" where
  "tokenizeFrom types [] off = ([], [])"
| "tokenizeFrom types (c # cs) off =
     (case matchToken types (c # cs) of
        Some (t, n) \<Rightarrow>
          (case tokenizeFrom types (drop n (c # cs)) (off + n) of
             (toks, errs) \<Rightarrow>
               (if GROUP t = Some SKIPPED then (toks, errs)
                else (\<lparr>image = take n (c # cs), startOffset = off, tokenType = t\<rparr> # toks, errs)))
      | None \<Rightarrow>
          (let k = Suc (resync types cs)
           in case tokenizeFrom types (drop k (c # cs)) (off + k) of
                (toks, errs) \<Rightarrow> (toks, \<lparr>offset = off, length_err = k\<rparr> # errs)))"
  by pat_completeness auto
termination
  by (relation "measure (\<lambda>(types, text, off). length text)") (auto dest: matchToken_pos)

definition tokenize :: "TokenType list \<Rightarrow> string \<Rightarrow> IToken list \<times> ILexingError list" where
  "tokenize types text = tokenizeFrom types text 0"

section \<open>What each step leaves behind\<close>

text \<open>
  The loops of the parser are characterised item by item: for a record of the document,
  the record as the parser leaves it (\<open>\<dots>After\<close>) and the domain object it builds from it
  (\<open>assembled\<dots>\<close>). The lemmas below prove that the loops compute exactly these.
\<close>

definition applicationAfter :: "string option \<Rightarrow> application \<Rightarrow> application" where
  "applicationAfter gv app =
     (if truthy gv then app\<lparr>a_config := (a_config app)(''jhipsterVersion'' \<mapsto> the gv)\<rparr> else app)"

definition assembledApplication :: "string option \<Rightarrow> document \<Rightarrow> application \<Rightarrow> JDLApplication" where
  "assembledApplication gv doc app =
     new_JDLApplication (a_config (applicationAfter gv app)) (getApplicationEntities doc app)"

text \<open>
  The name under which the container files the application built from a block, and the
  applications of the graph: a later block of a name replaces an earlier one.
\<close>

definition applicationKey :: "externals \<Rightarrow> string option \<Rightarrow> application \<Rightarrow> string" where
  "applicationKey ext gv app = applicationNameOf ext (a_config (applicationAfter gv app))"

definition assembledApplications ::
  "externals \<Rightarrow> string option \<Rightarrow> document \<Rightarrow> (string \<rightharpoonup> JDLApplication)" where
  "assembledApplications ext gv doc =
     map_of (rev (map (\<lambda>app. (applicationKey ext gv app, assembledApplication gv doc app))
                    (d_applications doc)))"

definition validationAfter :: "(string \<rightharpoonup> string) \<Rightarrow> validation \<Rightarrow> validation" where
  "validationAfter constants v =
     (if v_constant v then v\<lparr>v_value := constants (propertyKey (v_value v))\<rparr> else v)"

definition assembledValidation :: "(string \<rightharpoonup> string) \<Rightarrow> validation \<Rightarrow> JDLValidation" where
  "assembledValidation constants v =
     \<lparr>jv_name = v_key v, jv_value = v_value (validationAfter constants v)\<rparr>"

definition isId :: "field \<Rightarrow> bool" where
  "isId fld = (toLowerCase (lowerFirst (f_name fld)) = ''id'')"

definition fieldAfter :: "(string \<rightharpoonup> string) \<Rightarrow> field \<Rightarrow> field" where
  "fieldAfter constants fld =
     (if isId fld then fld else fst (getValidations constants fld))"

definition assembledField :: "externals \<Rightarrow> (string \<rightharpoonup> string) \<Rightarrow> field \<Rightarrow> JDLField" where
  "assembledField ext constants fld =
     \<lparr>jf_name = lowerFirst (f_name fld), jf_type = f_type fld,
      jf_validations = snd (getValidations constants fld),
      jf_comment = (if truthy (f_javadoc fld) then formatComment ext (f_javadoc fld) else None)\<rparr>"

definition entityAfter :: "(string \<rightharpoonup> string) \<Rightarrow> entity \<Rightarrow> entity" where
  "entityAfter constants ent =
     ent\<lparr>e_tableName := Some (orElse (e_tableName ent) (e_name ent)),
         e_body := map (fieldAfter constants) (e_body ent)\<rparr>"

definition assembledEntity :: "externals \<Rightarrow> (string \<rightharpoonup> string) \<Rightarrow> entity \<Rightarrow> JDLEntity" where
  "assembledEntity ext constants ent =
     \<lparr>je_name = e_name ent, je_tableName = orElse (e_tableName ent) (e_name ent),
      je_fields = snd (getFields ext constants ent),
      je_comment = formatComment ext (e_javadoc ent)\<rparr>"

text \<open>
  A later declaration of an entity name replaces an earlier one in the container, so the
  declared entities are read from the last declaration backwards.
\<close>

definition declaredEntities :: "externals \<Rightarrow> document \<Rightarrow> (string \<rightharpoonup> JDLEntity)" where
  "declaredEntities ext doc =
     map_of (rev (map (\<lambda>e. (e_name e, assembledEntity ext (d_constants doc) e)) (d_entities doc)))"

definition userEntity :: JDLEntity where
  "userEntity = \<lparr>je_name = USER, je_tableName = ''jhi_user'', je_fields = Map.empty,
                  je_comment = None\<rparr>"

definition relationshipAfter :: "relationship \<Rightarrow> relationship" where
  "relationshipAfter rel =
     (if \<not> truthy (s_injectedfield (r_from rel)) \<and> \<not> truthy (s_injectedfield (r_to rel))
      then rel\<lparr>r_from := (r_from rel)\<lparr>s_injectedfield := Some (lowerFirst (s_name (r_from rel)))\<rparr>\<rparr>
      else rel)"

text \<open>
  A relationship is resolved in a map of entities when both names it writes are keys of
  the map; the relationship object is built from the entities found there.
\<close>

definition resolved :: "(string \<rightharpoonup> JDLEntity) \<Rightarrow> relationship \<Rightarrow> bool" where
  "resolved ents rel =
     (ents (s_name (r_from rel)) \<noteq> None \<and> ents (s_name (r_to rel)) \<noteq> None)"

definition assembledRelationship ::
  "externals \<Rightarrow> (string \<rightharpoonup> JDLEntity) \<Rightarrow> relationship \<Rightarrow> JDLRelationship" where
  "assembledRelationship ext ents rel =
     \<lparr>jr_from = the (ents (s_name (r_from rel))),
      jr_to = the (ents (s_name (r_to rel))),
      jr_type = upperFirst (camelCase ext (r_cardinality rel)),
      jr_injectedFieldInFrom = s_injectedfield (r_from (relationshipAfter rel)),
      jr_injectedFieldInTo = s_injectedfield (r_to rel),
      jr_isInjectedFieldInFromRequired = s_required (r_from rel),
      jr_isInjectedFieldInToRequired = s_required (r_to rel),
      jr_commentInFrom = formatComment ext (s_javadoc (r_from rel)),
      jr_commentInTo = formatComment ext (s_javadoc (r_to rel))\<rparr>"

text \<open>The options that \<open>fillUnaryOptions\<close> and \<open>fillBinaryOptions\<close> add, in order.\<close>

definition unaryOptionsOf :: "document \<Rightarrow> JDLOption list" where
  "unaryOptionsOf doc =
     (if o_list (d_noClient doc) \<noteq> []
      then [JDLUnaryOption UnaryOptions_SKIP_CLIENT (o_list (d_noClient doc))
              (o_excluded (d_noClient doc))] else []) @
     (if o_list (d_noServer doc) \<noteq> []
      then [JDLUnaryOption UnaryOptions_SKIP_SERVER (o_list (d_noServer doc))
              (o_excluded (d_noServer doc))] else []) @
     (if o_list (d_noFluentMethod doc) \<noteq> []
      then [JDLUnaryOption UnaryOptions_NO_FLUENT_METHOD (o_list (d_noFluentMethod doc))
              (o_excluded (d_noFluentMethod doc))] else []) @
     (if o_list (d_filter doc) \<noteq> []
      then [JDLUnaryOption UnaryOptions_FILTER (o_list (d_filter doc))
              (o_excluded (d_filter doc))] else [])"

definition binaryOptionsOf :: "string option \<Rightarrow> document \<Rightarrow> string \<Rightarrow> JDLOption list" where
  "binaryOptionsOf appType doc optionValue =
     (if appType = Some ApplicationTypes_MICROSERVICE
         \<and> optionValue = BinaryOptions_CLIENT_ROOT_FOLDER
      then []
      else map (\<lambda>entry. JDLBinaryOption optionValue (Some (fst entry)) (o_list (snd entry))
                         (Some (o_excluded (snd entry))))
             (d_binary doc optionValue))"

definition documentOptions :: "externals \<Rightarrow> string option \<Rightarrow> document \<Rightarrow> JDLOption list" where
  "documentOptions ext appType doc =
     unaryOptionsOf doc @ concat (map (binaryOptionsOf appType doc) (BinaryOptions_Options ext))"

definition globalMicroserviceOption :: "configuration \<Rightarrow> document \<Rightarrow> JDLOption" where
  "globalMicroserviceOption config doc =
     JDLBinaryOption BinaryOptions_MICROSERVICE (c_applicationName config)
       (map e_name (d_entities doc)) None"

text \<open>The entities of the graph once \<open>fillClassesAndFields\<close> has run.\<close>

definition assembledEntities :: "externals \<Rightarrow> document \<Rightarrow> (string \<rightharpoonup> JDLEntity)" where
  "assembledEntities ext doc =
     (if (\<exists>r \<in> set (d_relationships doc). toLowerCase (s_name (r_to r)) = toLowerCase USER)
         \<and> declaredEntities ext doc USER = None
      then (declaredEntities ext doc)(USER \<mapsto> userEntity)
      else declaredEntities ext doc)"

section \<open>Example inputs\<close>

text \<open>
  Concrete documents on which the parser is run below. \<open>exampleExternals\<close> fixes the parts
  taken from other modules: comments are passed through unchanged, \<open>camelCase\<close> lowers the
  first letter (what lodash does to the cardinality keywords \<open>OneToOne\<close>, \<open>OneToMany\<close>,
  \<open>ManyToOne\<close> and \<open>ManyToMany\<close>), the binary option names are those of the DSL, and an
  application is filed under the \<open>baseName\<close> of its config.
\<close>

definition exampleExternals :: externals where
  "exampleExternals =
     \<lparr>formatComment = (\<lambda>comment. comment), camelCase = lowerFirst,
      BinaryOptions_Options = [''dto'', ''service'', ''pagination'', ''microservice'',
        ''searchEngine'', ''angularSuffix'', ''clientRootFolder''],
      applicationNameOf = (\<lambda>config. propertyKey (config ''baseName''))\<rparr>"

definition emptyDocument :: document where
  "emptyDocument =
     \<lparr>d_applications = [], d_enums = [], d_entities = [], d_relationships = [],
      d_constants = Map.empty,
      d_noClient = \<lparr>o_list = [], o_excluded = []\<rparr>,
      d_noServer = \<lparr>o_list = [], o_excluded = []\<rparr>,
      d_noFluentMethod = \<lparr>o_list = [], o_excluded = []\<rparr>,
      d_filter = \<lparr>o_list = [], o_excluded = []\<rparr>,
      d_binary = (\<lambda>optionName. [])\<rparr>"

definition entityNamed :: "string \<Rightarrow> entity" where
  "entityNamed n = \<lparr>e_name = n, e_tableName = None, e_javadoc = None, e_body = []\<rparr>"

definition sideNamed :: "string \<Rightarrow> relationshipSide" where
  "sideNamed n = \<lparr>s_name = n, s_injectedfield = None, s_required = None, s_javadoc = None\<rparr>"

definition configurationOf :: "document \<Rightarrow> configuration" where
  "configurationOf doc =
     \<lparr>c_document = Some doc, c_applicationType = None, c_applicationName = None,
      c_generatorVersion = None\<rparr>"

definition documentAtoB :: document where
  "documentAtoB =
     emptyDocument\<lparr>d_entities := [entityNamed ''A'', entityNamed ''B''],
       d_relationships := [\<lparr>r_cardinality = ''OneToOne'', r_from = sideNamed ''A'',
                             r_to = sideNamed ''B''\<rparr>]\<rparr>"

definition documentAtoLowerUser :: document where
  "documentAtoLowerUser =
     emptyDocument\<lparr>d_entities := [entityNamed ''A''],
       d_relationships := [\<lparr>r_cardinality = ''ManyToOne'', r_from = sideNamed ''A'',
                             r_to = sideNamed ''user''\<rparr>]\<rparr>"

definition documentAtoUser :: document where
  "documentAtoUser =
     emptyDocument\<lparr>d_entities := [entityNamed ''A''],
       d_relationships := [\<lparr>r_cardinality = ''ManyToOne'', r_from = sideNamed ''A'',
                             r_to = sideNamed ''User''\<rparr>]\<rparr>"

definition documentPerson :: document where
  "documentPerson =
     emptyDocument\<lparr>d_entities :=
       [\<lparr>e_name = ''Person'', e_tableName = None, e_javadoc = None,
          e_body = [\<lparr>f_name = ''Id'', f_type = ''Long'', f_javadoc = None,
                      f_validations = [\<lparr>v_key = ''required'', v_value = None, v_constant = False\<rparr>]\<rparr>,
                    \<lparr>f_name = ''firstName'', f_type = ''String'', f_javadoc = None,
                      f_validations = []\<rparr>,
                    \<lparr>f_name = ''Email'', f_type = ''String'', f_javadoc = None,
                      f_validations = [\<lparr>v_key = ''maxlength'', v_value = Some ''MAXLEN'',
                                         v_constant = True\<rparr>]\<rparr>]\<rparr>],
       d_constants := [''MAXLEN'' \<mapsto> ''50'']\<rparr>"

definition documentFooBarBaz :: document where
  "documentFooBarBaz =
     emptyDocument\<lparr>d_applications :=
         [\<lparr>a_config = [''baseName'' \<mapsto> ''shop''],
           a_entities = \<lparr>entityList = [''*''], excluded = [''Foo'']\<rparr>\<rparr>,
          \<lparr>a_config = [''baseName'' \<mapsto> ''desk''],
           a_entities = \<lparr>entityList = [''Baz'', ''Foo'', ''Baz'', ''Bar''],
                          excluded = [''Bar'']\<rparr>\<rparr>],
       d_entities := [entityNamed ''Foo'', entityNamed ''Bar'', entityNamed ''Baz'']\<rparr>"

text \<open>
  The options that the two document-driven steps add to a fresh graph, and the test for a
  binary option of a given name.
\<close>

definition declaredOptions :: "externals \<Rightarrow> configuration \<Rightarrow> document \<Rightarrow> JDLOption list" where
  "declaredOptions ext config doc =
     options (jdlObject (fillBinaryOptions ext (fillUnaryOptions (init config doc))))"

definition isBinaryOptionNamed :: "string \<Rightarrow> JDLOption \<Rightarrow> bool" where
  "isBinaryOptionNamed n opt =
     (case opt of JDLBinaryOption m v es xs \<Rightarrow> m = n | JDLUnaryOption m es xs \<Rightarrow> False)"

definition documentInvoicing :: document where
  "documentInvoicing =
     emptyDocument\<lparr>d_entities := [entityNamed ''Invoice'', entityNamed ''Line''],
       d_noClient := \<lparr>o_list = [''Line''], o_excluded = []\<rparr>,
       d_binary := (\<lambda>optionName. if optionName = ''dto''
                      then [(''mapstruct'', \<lparr>o_list = [''Invoice''], o_excluded = []\<rparr>)]
                      else [])\<rparr>"

definition configurationInvoicing :: configuration where
  "configurationInvoicing =
     \<lparr>c_document = Some documentInvoicing, c_applicationType = Some ''microservice'',
      c_applicationName = Some ''invoicing'', c_generatorVersion = None\<rparr>"

definition documentShop :: document where
  "documentShop =
     emptyDocument\<lparr>d_applications :=
         [\<lparr>a_config = [''baseName'' \<mapsto> ''shop''],
           a_entities = \<lparr>entityList = [''*''], excluded = []\<rparr>\<rparr>],
       d_entities := [entityNamed ''Invoice'', entityNamed ''Line''],
       d_relationships := [\<lparr>r_cardinality = ''OneToMany'', r_from = sideNamed ''Invoice'',
                             r_to = sideNamed ''Line''\<rparr>]\<rparr>"

definition configurationShop :: configuration where
  "configurationShop =
     \<lparr>c_document = Some documentShop, c_applicationType = Some ''monolith'',
      c_applicationName = Some ''shop'', c_generatorVersion = Some ''5.0.0''\<rparr>"

section \<open>Properties of a token catalog\<close>

text \<open>
  The first character decides which patterns can match: \<open>charClassOf\<close> sorts the characters
  by the regular expressions that can start with them, \<open>regexClass\<close> gives the class a match
  of each expression starts with.
\<close>

datatype charClass = Space | Slash | Sign | Quote | Ident | Other

definition charClassOf :: "char \<Rightarrow> charClass" where
  "charClassOf c =
     (if isSpace c then Space
      else if c = CHR ''/'' then Slash
      else if c = CHR ''-'' \<or> isDigit c then Sign
      else if c = CHR 0x22 then Quote
      else if isNameStart c then Ident
      else Other)"

fun regexClass :: "regex \<Rightarrow> charClass" where
  "regexClass RX_whitespace = Space"
| "regexClass RX_comment = Slash"
| "regexClass RX_regex = Slash"
| "regexClass RX_integer = Sign"
| "regexClass RX_string = Quote"
| "regexClass RX_name = Ident"

text \<open>
  The shape of the kinds of this catalog: a string pattern is either an identifier with
  \<open>NAME\<close> as fallback, or a single character with which no regular expression starts; only
  such identifiers have a fallback.
\<close>

definition wellFormedKind :: "TokenType \<Rightarrow> bool" where
  "wellFormedKind t =
     (case PATTERN t of
        Str s \<Rightarrow>
          (case s of
             [] \<Rightarrow> False
           | c # cs \<Rightarrow>
               if isNameStart c
               then list_all isNameChar cs \<and> LONGER_ALT t = Some NAME \<and> GROUP t = None
               else cs = [] \<and> LONGER_ALT t = None \<and> GROUP t = None \<and> charClassOf c = Other)
      | Rx r \<Rightarrow> LONGER_ALT t = None
      | NA \<Rightarrow> True)"

text \<open>
  The registration order: \<open>mayNotFollow p q\<close> says that a kind with pattern \<open>q\<close> must not be
  registered after a kind with pattern \<open>p\<close>. A literal must not follow one of its prefixes
  (the longer literal comes first, and no literal occurs twice), an identifier literal must
  not follow \<open>NAME\<close>, the comment expression must not follow the regex-literal expression,
  and no expression occurs twice.
\<close>

fun mayNotFollow :: "pattern \<Rightarrow> pattern \<Rightarrow> bool" where
  "mayNotFollow (Str s) (Str u) = startsWith u s"
| "mayNotFollow (Rx r) (Str u) = (r = RX_name \<and> (case u of [] \<Rightarrow> False | c # cs \<Rightarrow> isNameStart c))"
| "mayNotFollow (Rx r) (Rx r') = (r = r' \<or> (r = RX_regex \<and> r' = RX_comment))"
| "mayNotFollow p q = False"

fun ordered :: "pattern list \<Rightarrow> bool" where
  "ordered [] = True"
| "ordered (p # ps) = (list_all (\<lambda>q. \<not> mayNotFollow p q) ps \<and> ordered ps)"

text \<open>The two kinds \<open>tokens.APPLICATION_TYPE\<close> and \<open>tokens.APPLICATION\<close>.\<close>

definition APPLICATION_TYPE :: TokenType where
  "APPLICATION_TYPE =
     createToken ((tokenConfig ''APPLICATION_TYPE'' (Str ''applicationType''))\<lparr>categories := Some [CONFIG_KEY]\<rparr>)"

definition APPLICATION :: TokenType where
  "APPLICATION = createToken (tokenConfig ''APPLICATION'' (Str ''application''))"

section \<open>The loops of the document parser\<close>

lemma toLowerChar_plus_32:
  "isUpper c \<Longrightarrow> toLowerChar c = char_of ((of_char c :: nat) + 32)"
proof (cases c)
  case (Char x1 x2 x3 x4 x5 x6 x7 x8)
  assume "isUpper c"
  then show ?thesis
    unfolding Char
    by (cases x1; cases x2; cases x3; cases x4; cases x5; cases x6; cases x7; cases x8;
        simp add: toLowerChar_def isUpper_def char_of_def of_char_def bit_simps bit_iff_odd)
qed

lemma getApplicationEntities_after [simp]:
  "getApplicationEntities doc (applicationAfter gv app) = getApplicationEntities doc app"
  by (simp add: getApplicationEntities_def applicationAfter_def Let_def)

lemma map_add_map_of_rev_Cons:
  "m(k \<mapsto> a) ++ map_of (rev xs) = m ++ map_of (rev ((k, a) # xs))"
  by (rule ext) (simp add: map_add_def split: option.splits)

lemma set_orderedSet [simp]: "set (orderedSet xs) = set xs"
  by (induction xs) auto

lemma distinct_orderedSet [simp]: "distinct (orderedSet xs)"
  by (induction xs) simp_all

lemma orderedSet_distinct: "distinct xs \<Longrightarrow> orderedSet xs = xs"
proof (induction xs)
  case Nil show ?case by simp
next
  case (Cons x xs)
  then have "filter (\<lambda>y. y \<noteq> x) xs = xs" by (auto simp: filter_id_conv)
  with Cons show ?case by simp
qed

lemma filter_orderedSet: "filter P (orderedSet xs) = orderedSet (filter P xs)"
proof (induction xs)
  case Nil show ?case by simp
next
  case (Cons x xs)
  have "filter P (filter (\<lambda>y. y \<noteq> x) (orderedSet xs))
          = filter (\<lambda>y. y \<noteq> x) (filter P (orderedSet xs))"
    by (simp add: conj_commute)
  with Cons show ?case by (auto simp: filter_id_conv)
qed

lemma fillApplication_fst:
  "fst (fillApplication ext app st) = applicationAfter (c_generatorVersion (st_configuration st)) app"
  by (simp add: fillApplication_def applicationAfter_def Let_def)

lemma fillApplication_snd:
  "st_configuration (snd (fillApplication ext app st)) = st_configuration st"
  "st_document (snd (fillApplication ext app st)) = st_document st"
  "jdlObject (snd (fillApplication ext app st)) =
     addApplication ext (jdlObject st)
       (assembledApplication (c_generatorVersion (st_configuration st)) (st_document st) app)"
  by (simp_all add: fillApplication_def applicationAfter_def assembledApplication_def Let_def
        getApplicationEntities_def)

lemma ja_config_assembledApplication [simp]:
  "ja_config (assembledApplication gv doc app) = a_config (applicationAfter gv app)"
  by (simp add: assembledApplication_def new_JDLApplication_def)

lemma forEachApplication_fst:
  "fst (forEachApplication ext apps st) =
     map (applicationAfter (c_generatorVersion (st_configuration st))) apps"
proof (induction apps arbitrary: st)
  case Nil show ?case by simp
next
  case (Cons a apps)
  show ?case
    using Cons.IH [of "snd (fillApplication ext a st)"] fillApplication_fst [of ext a st]
    by (simp add: fillApplication_snd case_prod_beta)
qed

lemma forEachApplication_snd:
  "st_configuration (snd (forEachApplication ext apps st)) = st_configuration st \<and>
   st_document (snd (forEachApplication ext apps st)) = st_document st \<and>
   jdlObject (snd (forEachApplication ext apps st)) =
     (jdlObject st)\<lparr>applications := applications (jdlObject st) ++
        map_of (rev (map (\<lambda>app. (applicationKey ext (c_generatorVersion (st_configuration st)) app,
                   assembledApplication (c_generatorVersion (st_configuration st))
                     (st_document st) app)) apps))\<rparr>"
proof (induction apps arbitrary: st)
  case Nil show ?case by simp
next
  case (Cons a apps)
  let ?gv = "c_generatorVersion (st_configuration st)"
  let ?f = "\<lambda>app. (applicationKey ext ?gv app, assembledApplication ?gv (st_document st) app)"
  let ?s = "snd (fillApplication ext a st)"
  have o1: "jdlObject ?s = (jdlObject st)\<lparr>applications :=
              (applications (jdlObject st))(fst (?f a) \<mapsto> snd (?f a))\<rparr>"
    by (simp add: fillApplication_snd addApplication_def applicationKey_def)
  have "jdlObject (snd (forEachApplication ext (a # apps) st)) =
        (jdlObject ?s)\<lparr>applications := applications (jdlObject ?s) ++ map_of (rev (map ?f apps))\<rparr>"
    using Cons.IH [of ?s] by (simp add: case_prod_beta fillApplication_snd)
  also have "\<dots> = (jdlObject st)\<lparr>applications :=
        (applications (jdlObject st))(fst (?f a) \<mapsto> snd (?f a)) ++ map_of (rev (map ?f apps))\<rparr>"
    unfolding o1 by simp
  also have "\<dots> = (jdlObject st)\<lparr>applications :=
        applications (jdlObject st) ++ map_of (rev (map ?f (a # apps)))\<rparr>"
    unfolding list.map by (simp only: map_add_map_of_rev_Cons fst_conv snd_conv)
  finally show ?case
    using Cons.IH [of ?s] by (simp add: case_prod_beta fillApplication_snd)
qed

lemma fillApplications_props:
  "st_configuration (fillApplications ext st) = st_configuration st"
  "st_document (fillApplications ext st) =
     (st_document st)\<lparr>d_applications :=
        map (applicationAfter (c_generatorVersion (st_configuration st)))
          (d_applications (st_document st))\<rparr>"
  "jdlObject (fillApplications ext st) =
     (jdlObject st)\<lparr>applications := applications (jdlObject st) ++
        assembledApplications ext (c_generatorVersion (st_configuration st)) (st_document st)\<rparr>"
  using forEachApplication_snd [of ext "d_applications (st_document st)" st]
        forEachApplication_fst [of ext "d_applications (st_document st)" st]
  by (simp_all add: fillApplications_def case_prod_beta assembledApplications_def)

lemma forEachEnum_props:
  "applications (forEachEnum ext es obj) = applications obj \<and>
   entities (forEachEnum ext es obj) = entities obj \<and>
   relationships (forEachEnum ext es obj) = relationships obj \<and>
   options (forEachEnum ext es obj) = options obj"
  by (induction es arbitrary: obj) (simp_all add: addEnum_def)

lemma fillEnums_props:
  "st_configuration (fillEnums ext st) = st_configuration st"
  "st_document (fillEnums ext st) = st_document st"
  "applications (jdlObject (fillEnums ext st)) = applications (jdlObject st)"
  "entities (jdlObject (fillEnums ext st)) = entities (jdlObject st)"
  "relationships (jdlObject (fillEnums ext st)) = relationships (jdlObject st)"
  "options (jdlObject (fillEnums ext st)) = options (jdlObject st)"
  by (simp_all add: fillEnums_def forEachEnum_props)

lemma map_of_rev_last:
  "k \<notin> fst ` set ys \<Longrightarrow> (m ++ map_of (rev (xs @ (k, a) # ys))) k = Some a"
  by (simp add: map_add_Some_iff map_of_eq_None_iff)

lemma forEachValidation_fst:
  "fst (forEachValidation constants vs m) = map (validationAfter constants) vs"
  by (induction vs arbitrary: m) (simp_all add: case_prod_beta Let_def validationAfter_def)

lemma forEachValidation_snd:
  "snd (forEachValidation constants vs m) =
     m ++ map_of (rev (map (\<lambda>v. (v_key v, assembledValidation constants v)) vs))"
proof (induction vs arbitrary: m)
  case Nil show ?case by simp
next
  case (Cons v vs)
  have "snd (forEachValidation constants (v # vs) m) =
        snd (forEachValidation constants vs (m(v_key v \<mapsto> assembledValidation constants v)))"
    by (simp add: case_prod_beta Let_def validationAfter_def assembledValidation_def)
  also have "\<dots> = m(v_key v \<mapsto> assembledValidation constants v) ++
       map_of (rev (map (\<lambda>v. (v_key v, assembledValidation constants v)) vs))"
    by (rule Cons.IH)
  also have "\<dots> = m ++ map_of (rev (map (\<lambda>v. (v_key v, assembledValidation constants v)) (v # vs)))"
    using map_add_map_of_rev_Cons [of m "v_key v" "assembledValidation constants v"
            "map (\<lambda>v. (v_key v, assembledValidation constants v)) vs"]
    by simp
  finally show ?case .
qed

lemma getValidations_eq:
  "getValidations constants fld =
     (fld\<lparr>f_validations := map (validationAfter constants) (f_validations fld)\<rparr>,
      map_of (rev (map (\<lambda>v. (v_key v, assembledValidation constants v)) (f_validations fld))))"
  using forEachValidation_fst [of constants "f_validations fld" Map.empty]
        forEachValidation_snd [of constants "f_validations fld" Map.empty]
  by (simp add: getValidations_def case_prod_beta)

lemma forEachField_fst:
  "fst (forEachField ext constants body m) = map (fieldAfter constants) body"
  by (induction body arbitrary: m) (simp_all add: case_prod_beta Let_def fieldAfter_def isId_def)

lemma forEachField_snd:
  "snd (forEachField ext constants body m) =
     m ++ map_of (rev (map (\<lambda>f. (lowerFirst (f_name f), assembledField ext constants f))
                         (filter (\<lambda>f. \<not> isId f) body)))"
proof (induction body arbitrary: m)
  case Nil show ?case by simp
next
  case (Cons f body)
  show ?case
  proof (cases "isId f")
    case True
    then show ?thesis using Cons.IH [of m] by (simp add: case_prod_beta Let_def isId_def)
  next
    case False
    have "snd (forEachField ext constants (f # body) m) =
          snd (forEachField ext constants body
                 (m(lowerFirst (f_name f) \<mapsto> assembledField ext constants f)))"
      using False by (simp add: case_prod_beta Let_def isId_def assembledField_def)
    also have "\<dots> = m(lowerFirst (f_name f) \<mapsto> assembledField ext constants f) ++
         map_of (rev (map (\<lambda>f. (lowerFirst (f_name f), assembledField ext constants f))
                         (filter (\<lambda>f. \<not> isId f) body)))"
      by (rule Cons.IH)
    also have "\<dots> = m ++ map_of (rev (map (\<lambda>f. (lowerFirst (f_name f), assembledField ext constants f))
                         (filter (\<lambda>f. \<not> isId f) (f # body))))"
      using False
        map_add_map_of_rev_Cons [of m "lowerFirst (f_name f)" "assembledField ext constants f"
            "map (\<lambda>f. (lowerFirst (f_name f), assembledField ext constants f))
                         (filter (\<lambda>f. \<not> isId f) body)"]
      by simp
    finally show ?thesis .
  qed
qed

lemma getFields_eq:
  "getFields ext constants ent =
     (ent\<lparr>e_body := map (fieldAfter constants) (e_body ent)\<rparr>,
      map_of (rev (map (\<lambda>f. (lowerFirst (f_name f), assembledField ext constants f))
                         (filter (\<lambda>f. \<not> isId f) (e_body ent)))))"
  using forEachField_fst [of ext constants "e_body ent" Map.empty]
        forEachField_snd [of ext constants "e_body ent" Map.empty]
  by (simp add: getFields_def case_prod_beta)

lemma fillClassAndItsFields_eq:
  "fillClassAndItsFields ext constants ent obj =
     (entityAfter constants ent, addEntity obj (assembledEntity ext constants ent))"
  by (simp add: fillClassAndItsFields_def Let_def getFields_eq entityAfter_def assembledEntity_def)

lemma forEachEntity_fst:
  "fst (forEachEntity ext constants es obj) = map (entityAfter constants) es"
  by (induction es arbitrary: obj) (simp_all add: fillClassAndItsFields_eq case_prod_beta)

lemma forEachEntity_snd:
  "snd (forEachEntity ext constants es obj) =
     obj\<lparr>entities := entities obj ++
        map_of (rev (map (\<lambda>e. (e_name e, assembledEntity ext constants e)) es))\<rparr>"
proof (induction es arbitrary: obj)
  case Nil show ?case by simp
next
  case (Cons e es)
  let ?f = "\<lambda>e. (e_name e, assembledEntity ext constants e)"
  let ?obj = "addEntity obj (assembledEntity ext constants e)"
  have n: "je_name (assembledEntity ext constants e) = e_name e"
    by (simp add: assembledEntity_def)
  have e1: "entities ?obj = (entities obj)(e_name e \<mapsto> assembledEntity ext constants e)"
    by (simp add: addEntity_def n)
  have "snd (forEachEntity ext constants (e # es) obj) = snd (forEachEntity ext constants es ?obj)"
    by (simp add: fillClassAndItsFields_eq case_prod_beta)
  also have "\<dots> = ?obj\<lparr>entities := entities ?obj ++ map_of (rev (map ?f es))\<rparr>"
    by (rule Cons.IH)
  also have "entities ?obj ++ map_of (rev (map ?f es)) =
             entities obj ++ map_of (rev (map ?f (e # es)))"
    unfolding e1 list.map by (rule map_add_map_of_rev_Cons)
  finally show ?case by (simp add: addEntity_def)
qed

lemma fillClassesAndFields_props:
  "st_configuration (fillClassesAndFields ext st) = st_configuration st"
  "st_document (fillClassesAndFields ext st) =
     (st_document st)\<lparr>d_entities := map (entityAfter (d_constants (st_document st)))
                                        (d_entities (st_document st))\<rparr>"
  "applications (jdlObject (fillClassesAndFields ext st)) = applications (jdlObject st)"
  "relationships (jdlObject (fillClassesAndFields ext st)) = relationships (jdlObject st)"
  "options (jdlObject (fillClassesAndFields ext st)) = options (jdlObject st)"
  "entities (jdlObject (fillClassesAndFields ext st)) =
     (let ents = entities (jdlObject st) ++ declaredEntities ext (st_document st)
      in if (\<exists>r \<in> set (d_relationships (st_document st)).
               toLowerCase (s_name (r_to r)) = toLowerCase USER) \<and> ents USER = None
         then ents(USER \<mapsto> userEntity) else ents)"
  using forEachEntity_fst [of ext "d_constants (st_document st)" "d_entities (st_document st)" "jdlObject st"]
        forEachEntity_snd [of ext "d_constants (st_document st)" "d_entities (st_document st)" "jdlObject st"]
  by (simp_all add: fillClassesAndFields_def case_prod_beta addUserEntityIfNeedBe_def Let_def
        addUserEntity_def addEntity_def getUserRelationships_def declaredEntities_def
        userEntity_def filter_empty_conv)

lemma fillAssociation_eq:
  "fillAssociation ext rel obj =
     (if resolved (entities obj) rel
      then Inr (relationshipAfter rel,
                addRelationship obj (assembledRelationship ext (entities obj) rel))
      else Inl UnresolvedReference)"
  by (auto simp: fillAssociation_def relationshipAfter_def assembledRelationship_def Let_def
        new_JDLRelationship_def resolved_def split: option.splits)

lemma forEachRelationship_eq:
  "forEachRelationship ext rels obj =
     (if \<forall>rel \<in> set rels. resolved (entities obj) rel
      then Inr (map relationshipAfter rels,
                obj\<lparr>relationships := relationships obj @
                      map (assembledRelationship ext (entities obj)) rels\<rparr>)
      else Inl UnresolvedReference)"
proof (induction rels arbitrary: obj)
  case Nil show ?case by simp
next
  case (Cons rel rels)
  show ?case
  proof (cases "resolved (entities obj) rel")
    case False
    then show ?thesis by (simp add: fillAssociation_eq)
  next
    case True
    let ?obj = "addRelationship obj (assembledRelationship ext (entities obj) rel)"
    have e: "entities ?obj = entities obj" by (simp add: addRelationship_def)
    show ?thesis
      using True Cons.IH [of ?obj] unfolding e
      by (simp add: fillAssociation_eq) (simp add: addRelationship_def)
  qed
qed

lemma fillAssociations_eq:
  "fillAssociations ext st =
     (if \<forall>rel \<in> set (d_relationships (st_document st)). resolved (entities (jdlObject st)) rel
      then Inr (st\<lparr>st_document := (st_document st)\<lparr>d_relationships :=
                       map relationshipAfter (d_relationships (st_document st))\<rparr>,
                   jdlObject := (jdlObject st)\<lparr>relationships := relationships (jdlObject st) @
                       map (assembledRelationship ext (entities (jdlObject st)))
                         (d_relationships (st_document st))\<rparr>\<rparr>)
      else Inl UnresolvedReference)"
  by (simp add: fillAssociations_def forEachRelationship_eq)

lemma fillUnaryOptions_props:
  "st_configuration (fillUnaryOptions st) = st_configuration st"
  "st_document (fillUnaryOptions st) = st_document st"
  "jdlObject (fillUnaryOptions st) =
     (jdlObject st)\<lparr>options := options (jdlObject st) @ unaryOptionsOf (st_document st)\<rparr>"
  by (simp_all add: fillUnaryOptions_def Let_def addOption_def unaryOptionsOf_def)

lemma forEachOptionEntry_eq:
  "forEachOptionEntry appType optionValue entries obj =
     obj\<lparr>options := options obj @
       (if appType = Some ApplicationTypes_MICROSERVICE
           \<and> optionValue = BinaryOptions_CLIENT_ROOT_FOLDER
        then []
        else map (\<lambda>entry. JDLBinaryOption optionValue (Some (fst entry)) (o_list (snd entry))
                         (Some (o_excluded (snd entry)))) entries)\<rparr>"
proof (cases "appType = Some ApplicationTypes_MICROSERVICE
               \<and> optionValue = BinaryOptions_CLIENT_ROOT_FOLDER")
  case True
  have "forEachOptionEntry appType optionValue entries obj = obj"
    using True by (induction entries) simp_all
  then show ?thesis using True by simp
next
  case False
  have "forEachOptionEntry appType optionValue entries obj =
        obj\<lparr>options := options obj @
          map (\<lambda>entry. JDLBinaryOption optionValue (Some (fst entry)) (o_list (snd entry))
                         (Some (o_excluded (snd entry)))) entries\<rparr>"
    using False
    by (induction entries arbitrary: obj) (auto simp: addBinaryOption_def addOption_def)
  then show ?thesis using False by auto
qed

lemma forEachBinaryOption_eq:
  "forEachBinaryOption appType doc names obj =
     obj\<lparr>options := options obj @ concat (map (binaryOptionsOf appType doc) names)\<rparr>"
proof (induction names arbitrary: obj)
  case Nil show ?case by simp
next
  case (Cons n names)
  show ?case
    using Cons.IH [of "forEachOptionEntry appType n (d_binary doc n) obj"]
    by (simp add: forEachOptionEntry_eq [of appType n "d_binary doc n" obj] binaryOptionsOf_def)
qed

lemma fillOptions_props:
  "st_configuration (fillOptions ext st) = st_configuration st"
  "st_document (fillOptions ext st) = st_document st"
  "jdlObject (fillOptions ext st) =
     (jdlObject st)\<lparr>options := options (jdlObject st) @
        documentOptions ext (c_applicationType (st_configuration st)) (st_document st) @
        (if c_applicationType (st_configuration st) = Some ApplicationTypes_MICROSERVICE
            \<and> d_binary (st_document st) ''microservice'' = []
         then [globalMicroserviceOption (st_configuration st) (st_document st)] else [])\<rparr>"
  by (simp_all add: fillOptions_def Let_def fillBinaryOptions_def fillUnaryOptions_props
        forEachBinaryOption_eq globallyAddMicroserviceOption_def addOption_def
        documentOptions_def globalMicroserviceOption_def)

lemma e_name_entityAfter [simp]: "e_name (entityAfter constants e) = e_name e"
  by (simp add: entityAfter_def)

lemma documentOptions_cong:
  assumes "d_noClient doc' = d_noClient doc" and "d_noServer doc' = d_noServer doc"
    and "d_noFluentMethod doc' = d_noFluentMethod doc" and "d_filter doc' = d_filter doc"
    and "d_binary doc' = d_binary doc"
  shows "documentOptions ext appType doc' = documentOptions ext appType doc"
proof -
  have "binaryOptionsOf appType doc' = binaryOptionsOf appType doc"
    by (rule ext) (simp add: binaryOptionsOf_def assms)
  moreover have "unaryOptionsOf doc' = unaryOptionsOf doc"
    by (simp add: unaryOptionsOf_def assms)
  ultimately show ?thesis by (simp add: documentOptions_def)
qed

lemma fillAssociations_props:
  assumes "fillAssociations ext st = Inr st'"
  shows "\<forall>rel \<in> set (d_relationships (st_document st)). resolved (entities (jdlObject st)) rel"
    and "st_configuration st' = st_configuration st"
    and "st_document st' =
           (st_document st)\<lparr>d_relationships :=
              map relationshipAfter (d_relationships (st_document st))\<rparr>"
    and "jdlObject st' =
           (jdlObject st)\<lparr>relationships := relationships (jdlObject st) @
              map (assembledRelationship ext (entities (jdlObject st)))
                (d_relationships (st_document st))\<rparr>"
  using assms by (auto simp: fillAssociations_eq split: if_splits)

lemma before_associations:
  fixes ext config doc
  defines "s3 \<equiv> fillClassesAndFields ext (fillEnums ext (fillApplications ext (init config doc)))"
  shows "st_configuration s3 = config"
    and "st_document s3 =
           doc\<lparr>d_applications := map (applicationAfter (c_generatorVersion config)) (d_applications doc),
               d_entities := map (entityAfter (d_constants doc)) (d_entities doc)\<rparr>"
    and "applications (jdlObject s3) = assembledApplications ext (c_generatorVersion config) doc"
    and "entities (jdlObject s3) = assembledEntities ext doc"
    and "relationships (jdlObject s3) = []"
    and "options (jdlObject s3) = []"
proof -
  let ?s2 = "fillEnums ext (fillApplications ext (init config doc))"
  have d2: "st_document ?s2 =
      doc\<lparr>d_applications := map (applicationAfter (c_generatorVersion config)) (d_applications doc)\<rparr>"
    by (simp add: fillEnums_props fillApplications_props init_def)
  show "st_configuration s3 = config"
    by (simp add: s3_def fillClassesAndFields_props fillEnums_props fillApplications_props init_def)
  show "st_document s3 =
           doc\<lparr>d_applications := map (applicationAfter (c_generatorVersion config)) (d_applications doc),
               d_entities := map (entityAfter (d_constants doc)) (d_entities doc)\<rparr>"
    by (simp add: s3_def fillClassesAndFields_props d2)
  show "applications (jdlObject s3) = assembledApplications ext (c_generatorVersion config) doc"
    by (simp add: s3_def fillClassesAndFields_props fillEnums_props fillApplications_props
          init_def new_JDLObject_def)
  show "entities (jdlObject s3) = assembledEntities ext doc"
    by (simp add: s3_def fillClassesAndFields_props d2 fillEnums_props fillApplications_props
          init_def new_JDLObject_def assembledEntities_def declaredEntities_def Let_def)
  show "relationships (jdlObject s3) = []"
    by (simp add: s3_def fillClassesAndFields_props fillEnums_props fillApplications_props
          init_def new_JDLObject_def)
  show "options (jdlObject s3) = []"
    by (simp add: s3_def fillClassesAndFields_props fillEnums_props fillApplications_props
          init_def new_JDLObject_def)
qed

lemma parse_cases:
  assumes "c_document config = Some doc"
  shows "(\<forall>rel \<in> set (d_relationships doc). resolved (assembledEntities ext doc) rel)
           \<Longrightarrow> \<exists>st. parseFromConfigurationObject ext config = Inr st"
    and "\<not> (\<forall>rel \<in> set (d_relationships doc). resolved (assembledEntities ext doc) rel)
           \<Longrightarrow> parseFromConfigurationObject ext config = Inl UnresolvedReference"
  using assms
  by (simp_all add: parseFromConfigurationObject_def fillAssociations_eq
        before_associations(2,4))

lemma parse_result:
  assumes "parseFromConfigurationObject ext config = Inr st"
    and "c_document config = Some doc"
  shows "st_configuration st = config"
    and "st_document st =
           doc\<lparr>d_applications := map (applicationAfter (c_generatorVersion config)) (d_applications doc),
               d_entities := map (entityAfter (d_constants doc)) (d_entities doc),
               d_relationships := map relationshipAfter (d_relationships doc)\<rparr>"
    and "applications (jdlObject st) = assembledApplications ext (c_generatorVersion config) doc"
    and "entities (jdlObject st) = assembledEntities ext doc"
    and "relationships (jdlObject st) =
           map (assembledRelationship ext (assembledEntities ext doc)) (d_relationships doc)"
    and "options (jdlObject st) =
           documentOptions ext (c_applicationType config) doc @
           (if c_applicationType config = Some ApplicationTypes_MICROSERVICE
               \<and> d_binary doc ''microservice'' = []
            then [globalMicroserviceOption config doc] else [])"
    and "\<forall>rel \<in> set (d_relationships doc). resolved (assembledEntities ext doc) rel"
proof -
  let ?s3 = "fillClassesAndFields ext (fillEnums ext (fillApplications ext (init config doc)))"
  note b = before_associations [of ext config doc]
  obtain s4 where s4: "fillAssociations ext ?s3 = Inr s4" and st: "st = fillOptions ext s4"
    using assms by (auto simp: parseFromConfigurationObject_def split: sum.splits)
  note a = fillAssociations_props [OF s4]
  have c: "st_configuration s4 = config" by (simp add: a(2) b(1))
  have d4: "st_document s4 =
           doc\<lparr>d_applications := map (applicationAfter (c_generatorVersion config)) (d_applications doc),
               d_entities := map (entityAfter (d_constants doc)) (d_entities doc),
               d_relationships := map relationshipAfter (d_relationships doc)\<rparr>"
    by (simp add: a(3) b(2))
  show "st_configuration st = config" by (simp add: st fillOptions_props c)
  show "st_document st =
           doc\<lparr>d_applications := map (applicationAfter (c_generatorVersion config)) (d_applications doc),
               d_entities := map (entityAfter (d_constants doc)) (d_entities doc),
               d_relationships := map relationshipAfter (d_relationships doc)\<rparr>"
    by (simp add: st fillOptions_props d4)
  show "applications (jdlObject st) = assembledApplications ext (c_generatorVersion config) doc"
    by (simp add: st fillOptions_props a(4) b(3))
  show "entities (jdlObject st) = assembledEntities ext doc"
    by (simp add: st fillOptions_props a(4) b(4))
  show "relationships (jdlObject st) =
           map (assembledRelationship ext (assembledEntities ext doc)) (d_relationships doc)"
  proof -
    have d3: "d_relationships (st_document ?s3) = d_relationships doc"
      by (simp add: b(2))
    have "relationships (jdlObject s4) =
          relationships (jdlObject ?s3) @
          map (assembledRelationship ext (entities (jdlObject ?s3)))
            (d_relationships (st_document ?s3))"
      by (simp add: a(4))
    then have "relationships (jdlObject s4) =
          map (assembledRelationship ext (assembledEntities ext doc)) (d_relationships doc)"
      by (simp only: b(5) d3 b(4) append_Nil)
    then show ?thesis by (simp add: st fillOptions_props)
  qed
  have o4: "options (jdlObject s4) = []"
    by (simp add: a(4) b(6))
  have dopt: "documentOptions ext (c_applicationType config) (st_document s4) =
              documentOptions ext (c_applicationType config) doc"
    by (rule documentOptions_cong) (simp_all add: d4)
  show "options (jdlObject st) =
           documentOptions ext (c_applicationType config) doc @
           (if c_applicationType config = Some ApplicationTypes_MICROSERVICE
               \<and> d_binary doc ''microservice'' = []
            then [globalMicroserviceOption config doc] else [])"
    using dopt
    by (simp add: st fillOptions_props o4 c) (simp add: d4 globalMicroserviceOption_def comp_def)
  show "\<forall>rel \<in> set (d_relationships doc). resolved (assembledEntities ext doc) rel"
    using a(1) by (simp only: b(2,4)) simp
qed

lemma map_of_rev_last':
  "k \<notin> fst ` set ys \<Longrightarrow> map_of (rev (xs @ (k, a) # ys)) k = Some a"
  using map_of_rev_last [of k ys Map.empty xs a] by simp

lemma declaredEntities_last:
  assumes "d_entities doc = pre @ e # post" and "e_name e \<notin> e_name ` set post"
  shows "declaredEntities ext doc (e_name e) = Some (assembledEntity ext (d_constants doc) e)"
proof -
  let ?f = "\<lambda>e. (e_name e, assembledEntity ext (d_constants doc) e)"
  have "e_name e \<notin> fst ` set (map ?f post)" using assms(2) by (simp add: image_image)
  then have "map_of (rev (map ?f pre @ (e_name e, assembledEntity ext (d_constants doc) e) # map ?f post))
               (e_name e) = Some (assembledEntity ext (d_constants doc) e)"
    by (rule map_of_rev_last')
  then show ?thesis by (simp add: declaredEntities_def assms(1))
qed

lemma assembledEntities_last:
  assumes "d_entities doc = pre @ e # post" and "e_name e \<notin> e_name ` set post"
  shows "assembledEntities ext doc (e_name e) = Some (assembledEntity ext (d_constants doc) e)"
  using declaredEntities_last [OF assms, of ext]
  by (auto simp: assembledEntities_def)

lemma declaredEntities_None:
  "declaredEntities ext doc n = None \<longleftrightarrow> n \<notin> e_name ` set (d_entities doc)"
  by (simp add: declaredEntities_def map_of_eq_None_iff image_image)

lemma declaredEntities_Some:
  "declaredEntities ext doc n = Some E \<Longrightarrow>
     \<exists>e \<in> set (d_entities doc). e_name e = n \<and> E = assembledEntity ext (d_constants doc) e"
  by (auto simp: declaredEntities_def dest!: map_of_SomeD)

lemma assembledField_last:
  assumes "e_body e = pre @ f # post" and "\<not> isId f"
    and "lowerFirst (f_name f) \<notin> (\<lambda>g. lowerFirst (f_name g)) ` set post"
  shows "je_fields (assembledEntity ext constants e) (lowerFirst (f_name f)) =
           Some (assembledField ext constants f)"
proof -
  let ?h = "\<lambda>f. (lowerFirst (f_name f), assembledField ext constants f)"
  let ?keep = "filter (\<lambda>f. \<not> isId f)"
  have "lowerFirst (f_name f) \<notin> fst ` set (map ?h (?keep post))"
    using assms(3) by (auto simp: image_image)
  then have "map_of (rev (map ?h (?keep pre) @ (lowerFirst (f_name f), assembledField ext constants f)
                # map ?h (?keep post))) (lowerFirst (f_name f)) = Some (assembledField ext constants f)"
    by (rule map_of_rev_last')
  then show ?thesis
    using assms(2) by (simp add: assembledEntity_def getFields_eq assms(1))
qed

lemma assembledField_present:
  assumes "f \<in> set (e_body e)" and "\<not> isId f"
  shows "\<exists>F. je_fields (assembledEntity ext constants e) (lowerFirst (f_name f)) = Some F
            \<and> jf_name F = lowerFirst (f_name f)"
proof -
  let ?h = "\<lambda>f. (lowerFirst (f_name f), assembledField ext constants f)"
  let ?l = "rev (map ?h (filter (\<lambda>f. \<not> isId f) (e_body e)))"
  have "lowerFirst (f_name f) \<in> fst ` set ?l" using assms by (auto simp: image_image intro!: image_eqI)
  then obtain F where F: "map_of ?l (lowerFirst (f_name f)) = Some F"
    by (cases "map_of ?l (lowerFirst (f_name f))") (auto simp: map_of_eq_None_iff)
  then have "(lowerFirst (f_name f), F) \<in> set ?l" by (rule map_of_SomeD)
  then have "jf_name F = lowerFirst (f_name f)" by (auto simp: assembledField_def)
  with F show ?thesis by (simp add: assembledEntity_def getFields_eq)
qed

lemma assembledField_no_id:
  "toLowerCase k = ''id'' \<Longrightarrow> je_fields (assembledEntity ext constants e) k = None"
  by (auto simp: assembledEntity_def getFields_eq map_of_eq_None_iff isId_def image_image)

lemma assembledValidation_last:
  assumes "f_validations f = pre @ v # post" and "v_key v \<notin> v_key ` set post"
  shows "jf_validations (assembledField ext constants f) (v_key v) =
           Some (assembledValidation constants v)"
proof -
  let ?h = "\<lambda>v. (v_key v, assembledValidation constants v)"
  have "v_key v \<notin> fst ` set (map ?h post)" using assms(2) by (simp add: image_image)
  then have "map_of (rev (map ?h pre @ (v_key v, assembledValidation constants v) # map ?h post))
               (v_key v) = Some (assembledValidation constants v)"
    by (rule map_of_rev_last')
  then show ?thesis by (simp add: assembledField_def getValidations_eq assms(1))
qed

lemmas example_defs = exampleExternals_def emptyDocument_def entityNamed_def sideNamed_def
  configurationOf_def

lemmas char_defs = toLowerCase_def toLowerChar_def toUpperChar_def isUpper_def isLower_def

lemma assembledEntities_dom:
  "assembledEntities ext doc n \<noteq> None \<longleftrightarrow>
     n \<in> e_name ` set (d_entities doc)
     \<or> (n = USER \<and> (\<exists>r \<in> set (d_relationships doc).
                      toLowerCase (s_name (r_to r)) = toLowerCase USER))"
  using declaredEntities_None [of ext doc n] declaredEntities_None [of ext doc USER]
  by (auto simp: assembledEntities_def)

lemma resolved_iff:
  "resolved (assembledEntities ext doc) rel \<longleftrightarrow>
     (s_name (r_from rel) \<in> e_name ` set (d_entities doc)
      \<or> (s_name (r_from rel) = USER
          \<and> (\<exists>r \<in> set (d_relationships doc). toLowerCase (s_name (r_to r)) = toLowerCase USER)))
     \<and> (s_name (r_to rel) \<in> e_name ` set (d_entities doc)
      \<or> (s_name (r_to rel) = USER
          \<and> (\<exists>r \<in> set (d_relationships doc). toLowerCase (s_name (r_to r)) = toLowerCase USER)))"
  unfolding resolved_def assembledEntities_dom ..

lemma parse_configurationOf:
  assumes "\<forall>rel \<in> set (d_relationships doc). resolved (assembledEntities ext doc) rel"
  shows "\<exists>st. parseFromConfigurationObject ext (configurationOf doc) = Inr st"
  by (rule parse_cases(1) [OF _ assms]) (simp add: configurationOf_def)

lemma userEntity_eq:
  "userEntity = \<lparr>je_name = ''User'', je_tableName = ''jhi_user'', je_fields = Map.empty,
                  je_comment = None\<rparr>"
  by (simp add: userEntity_def USER_def)

lemma assembledEntities_user:
  assumes "\<exists>r \<in> set (d_relationships doc). toLowerCase (s_name (r_to r)) = toLowerCase ''User''"
    and "\<forall>e \<in> set (d_entities doc). e_name e \<noteq> ''User''"
  shows "assembledEntities ext doc ''User'' = Some userEntity"
proof -
  have "declaredEntities ext doc USER = None"
    using assms(2) by (auto simp: declaredEntities_None USER_def)
  then show ?thesis using assms(1) by (simp add: assembledEntities_def USER_def)
qed

lemma assembledEntities_Some:
  assumes "assembledEntities ext doc n = Some E"
  shows "E = userEntity \<or> (\<exists>e \<in> set (d_entities doc). E = assembledEntity ext (d_constants doc) e)"
proof (cases "declaredEntities ext doc n")
  case None
  then show ?thesis using assms by (auto simp: assembledEntities_def split: if_splits)
next
  case (Some E')
  then have "assembledEntities ext doc n = Some E'"
    by (auto simp: assembledEntities_def)
  with assms Some show ?thesis by (auto dest: declaredEntities_Some)
qed

lemma declaredOptions_eq:
  "declaredOptions ext config doc = documentOptions ext (c_applicationType config) doc"
  by (simp add: declaredOptions_def fillBinaryOptions_def fillUnaryOptions_props
        forEachBinaryOption_eq init_def new_JDLObject_def documentOptions_def)

lemma no_microservice_in_binaryOptionsOf:
  "d_binary doc ''microservice'' = [] \<Longrightarrow>
     filter (isBinaryOptionNamed ''microservice'') (binaryOptionsOf appType doc n) = []"
  by (cases "n = ''microservice''")
     (auto simp: binaryOptionsOf_def isBinaryOptionNamed_def filter_empty_conv)

lemma no_microservice_in_documentOptions:
  assumes "d_binary doc ''microservice'' = []"
  shows "filter (isBinaryOptionNamed ''microservice'') (documentOptions ext appType doc) = []"
proof -
  have "filter (isBinaryOptionNamed ''microservice'') (unaryOptionsOf doc) = []"
    by (simp add: unaryOptionsOf_def isBinaryOptionNamed_def)
  moreover have "filter (isBinaryOptionNamed ''microservice'')
                   (concat (map (binaryOptionsOf appType doc) names)) = []" for names
    by (induction names) (simp_all add: no_microservice_in_binaryOptionsOf [OF assms])
  ultimately show ?thesis by (simp add: documentOptions_def)
qed

text \<open>
  On a graph that is returned, the entity \<open>User\<close> is the synthesized one when the document
  has a relationship to \<open>User\<close> (in any case) and declares no entity of exactly that name;
  every relationship's to endpoint is the entity filed under the name the relationship
  writes, so a relationship to exactly \<open>User\<close> ends in the synthesized entity.
\<close>

lemma implicit_user_entity_on_return:
  assumes "parseFromConfigurationObject ext config = Inr st"
    and "c_document config = Some doc"
    and "\<exists>r \<in> set (d_relationships doc). toLowerCase (s_name (r_to r)) = toLowerCase ''User''"
    and "\<forall>e \<in> set (d_entities doc). e_name e \<noteq> ''User''"
  shows "entities (jdlObject st) ''User'' = Some userEntity"
    and "\<forall>i < length (d_relationships doc).
           entities (jdlObject st) (s_name (r_to (d_relationships doc ! i)))
             = Some (jr_to (relationships (jdlObject st) ! i))"
    and "\<forall>i < length (d_relationships doc).
           s_name (r_to (d_relationships doc ! i)) = ''User'' \<longrightarrow>
           jr_to (relationships (jdlObject st) ! i) = userEntity"
proof -
  note r = parse_result [OF assms(1,2)]
  show u: "entities (jdlObject st) ''User'' = Some userEntity"
    using assembledEntities_user [OF assms(3,4), of ext] by (simp add: r(4))
  show e: "\<forall>i < length (d_relationships doc).
           entities (jdlObject st) (s_name (r_to (d_relationships doc ! i)))
             = Some (jr_to (relationships (jdlObject st) ! i))"
  proof (intro allI impI)
    fix i assume i: "i < length (d_relationships doc)"
    then have "resolved (assembledEntities ext doc) (d_relationships doc ! i)"
      using r(7) by simp
    then show "entities (jdlObject st) (s_name (r_to (d_relationships doc ! i)))
             = Some (jr_to (relationships (jdlObject st) ! i))"
      using i by (auto simp: r(4,5) resolved_def assembledRelationship_def)
  qed
  show "\<forall>i < length (d_relationships doc).
           s_name (r_to (d_relationships doc ! i)) = ''User'' \<longrightarrow>
           jr_to (relationships (jdlObject st) ! i) = userEntity"
    using u e by auto
qed

section \<open>The tokenizer on a well-formed catalog\<close>

lemma createToken_sel [simp]:
  "tokenName (createToken config) = name config"
  "PATTERN (createToken config) = pattern config"
  "GROUP (createToken config) = group config"
  by (simp_all add: createToken_def chevrotain_createToken_def Let_def split: pattern.splits)

lemma createToken_LONGER_ALT:
  "LONGER_ALT (createToken config) =
     (case pattern config of
        Str s \<Rightarrow> if regexTest RX_name s then Some NAME else longer_alt config
      | _ \<Rightarrow> longer_alt config)"
  by (simp add: createToken_def chevrotain_createToken_def Let_def split: pattern.splits)

lemma createToken_CATEGORIES:
  "CATEGORIES (createToken config) =
     (case pattern config of
        Str s \<Rightarrow> if regexTest RX_name s
                 then (case categories config of None \<Rightarrow> [] | Some cs \<Rightarrow> cs) @ [KEYWORD]
                 else (case categories config of None \<Rightarrow> [] | Some cs \<Rightarrow> cs)
      | _ \<Rightarrow> (case categories config of None \<Rightarrow> [] | Some cs \<Rightarrow> cs))"
  by (simp add: createToken_def chevrotain_createToken_def Let_def split: pattern.splits option.splits)

lemma tokenConfig_sel [simp]:
  "name (tokenConfig n p) = n" "pattern (tokenConfig n p) = p"
  "longer_alt (tokenConfig n p) = None" "categories (tokenConfig n p) = None"
  "group (tokenConfig n p) = None" "label (tokenConfig n p) = None"
  by (simp_all add: tokenConfig_def)

lemma NAME_sel [simp]:
  "tokenName NAME = ''NAME''" "PATTERN NAME = Rx RX_name" "LONGER_ALT NAME = None" "GROUP NAME = None"
  "CATEGORIES NAME = []"
  by (simp_all add: NAME_def chevrotain_createToken_def)

lemmas char_class_defs = isNameStart_def isNameChar_def isDigit_def isSpace_def charClassOf_def

text \<open>
  The module collects its token types in an object keyed by name and passes the object's
  values to the lexer. The names are distinct, so the values are the token types in
  creation order.
\<close>

lemma JDLLexer_names_distinct: "distinct (map tokenName JDLLexer)"
  by (simp add: JDLLexer_def tokens_def tokenConfigs_def)

lemma JDLLexer_patterns:
  "map PATTERN JDLLexer = map pattern tokenConfigs @ [Rx RX_name]"
  by (simp add: JDLLexer_def tokens_def)

lemma JDLLexer_ordered: "ordered (map PATTERN JDLLexer)"
  unfolding JDLLexer_patterns
  by (simp add: tokenConfigs_def isNameStart_def)

lemma JDLLexer_wellFormed: "list_all wellFormedKind JDLLexer"
  by code_simp

lemma startsWith_append: "startsWith text s \<longleftrightarrow> (\<exists>rest. text = s @ rest)"
  by (induction "text" s rule: startsWith.induct) auto

lemma startsWith_both:
  "startsWith text a \<Longrightarrow> startsWith text b \<Longrightarrow> length a \<le> length b \<Longrightarrow> startsWith b a"
proof (induction "text" a arbitrary: b rule: startsWith.induct)
  case (1 t) show ?case by simp
next
  case (2 c cs) then show ?case by simp
next
  case (3 t ts c cs)
  then show ?case by (cases b) auto
qed

lemma startsWith_self: "startsWith s s"
  by (simp add: startsWith_append)

lemma matchRegex_Nil: "matchRegex r [] = None"
  by (cases r) simp_all

lemma startsWith_Nil: "startsWith [] s \<longleftrightarrow> s = []"
  by (cases s) simp_all

lemma matchPattern_Nil: "matchPattern p [] = None"
  by (cases p) (simp_all add: matchRegex_Nil startsWith_Nil)

lemma matchRegex_class: "matchRegex r (c # cs) = Some m \<Longrightarrow> charClassOf c = regexClass r"
  by (cases r) (auto simp: char_class_defs Let_def split: if_splits list.splits)

lemma matchPattern_Str: "matchPattern (Str s) text = Some m \<longleftrightarrow> s \<noteq> [] \<and> startsWith text s \<and> m = length s"
  by auto

lemma name_dominates:
  assumes "isNameStart c" and "list_all isNameChar cs" and "startsWith text (c # cs)"
  shows "\<exists>L. matchRegex RX_name text = Some L \<and> length (c # cs) \<le> L"
proof -
  obtain rest where tx: "text = c # (cs @ rest)"
    using assms(3) by (auto simp: startsWith_append)
  have "takeWhile isNameChar (cs @ rest) = cs @ takeWhile isNameChar rest"
    using assms(2) by (simp add: takeWhile_append2 list_all_iff)
  then show ?thesis using assms(1) by (simp add: tx)
qed

lemma name_exact:
  assumes "isNameStart c" and "list_all isNameChar cs"
  shows "matchRegex RX_name (c # cs) = Some (length (c # cs))"
proof -
  have "length (takeWhile isNameChar cs) = length cs"
    using assms(2) by (simp add: list_all_iff takeWhile_eq_all_conv [THEN iffD2])
  then show ?thesis using assms(1) by simp
qed

lemma findCommentEnd_slash:
  "findCommentEnd text = Some e \<Longrightarrow>
     length (takeWhile (\<lambda>c. c \<noteq> CHR 0x0A \<and> c \<noteq> CHR 0x0D \<and> c \<noteq> CHR ''/'') text) < e"
proof (induction "text" arbitrary: e rule: findCommentEnd.induct)
  case (1 c1 c2 cs)
  show ?case
  proof (cases "c1 = CHR ''*'' \<and> c2 = CHR ''/''")
    case True
    with "1.prems" show ?thesis by simp
  next
    case False
    with "1.prems" obtain e' where e': "findCommentEnd (c2 # cs) = Some e'" "e = Suc e'"
      by auto
    from "1.IH" [OF False e'(1)] e'(2) show ?thesis by simp
  qed
qed simp_all

lemma comment_covers_regex:
  assumes "matchRegex RX_comment text = Some a" and "matchRegex RX_regex text = Some b"
  shows "b \<le> a"
proof -
  from assms(1) obtain rest e where tx: "text = CHR ''/'' # CHR ''*'' # rest"
    and e: "findCommentEnd rest = Some e" and a: "a = 2 + e"
    by (auto split: list.splits if_splits)
  have "b = length (takeWhile (\<lambda>c. c \<noteq> CHR 0x0A \<and> c \<noteq> CHR 0x0D \<and> c \<noteq> CHR ''/'') rest) + 3"
    using assms(2) by (auto simp: tx Let_def split: list.splits if_splits)
  with findCommentEnd_slash [OF e] a show ?thesis by simp
qed

lemma ordered_nth:
  "ordered ps \<Longrightarrow> i < j \<Longrightarrow> j < length ps \<Longrightarrow> \<not> mayNotFollow (ps ! i) (ps ! j)"
proof (induction ps arbitrary: i j)
  case Nil then show ?case by simp
next
  case (Cons p ps)
  show ?case
  proof (cases i)
    case 0
    with Cons.prems obtain j' where j': "j = Suc j'" "j' < length ps" by (cases j) auto
    with Cons.prems(1) 0 show ?thesis by (auto simp: list_all_length)
  next
    case (Suc i')
    with Cons.prems obtain j' where j': "j = Suc j'" "j' < length ps" "i' < j'" by (cases j) auto
    with Cons.IH [of i' j'] Cons.prems(1) Suc show ?thesis by simp
  qed
qed

text \<open>The first kind whose pattern matches, and what \<open>matchToken\<close> makes of it.\<close>

lemma matchToken_first:
  assumes "matchToken types text = Some (t, n)"
  shows "\<exists>i k. i < length types
           \<and> (\<forall>j < i. matchPattern (PATTERN (types ! j)) text = None)
           \<and> matchPattern (PATTERN (types ! i)) text = Some k
           \<and> (case LONGER_ALT (types ! i) of
                 None \<Rightarrow> t = types ! i \<and> n = k
               | Some alt \<Rightarrow>
                   (case matchPattern (PATTERN alt) text of
                      None \<Rightarrow> t = types ! i \<and> n = k
                    | Some m \<Rightarrow> if k < m then t = alt \<and> n = m else t = types ! i \<and> n = k))"
  using assms
proof (induction types)
  case Nil then show ?case by simp
next
  case (Cons u us)
  show ?case
  proof (cases "matchPattern (PATTERN u) text")
    case None
    with Cons.prems have "matchToken us text = Some (t, n)" by simp
    from Cons.IH [OF this] obtain i k where ik: "i < length us"
      "\<forall>j < i. matchPattern (PATTERN (us ! j)) text = None"
      "matchPattern (PATTERN (us ! i)) text = Some k"
      "(case LONGER_ALT (us ! i) of
                 None \<Rightarrow> t = us ! i \<and> n = k
               | Some alt \<Rightarrow>
                   (case matchPattern (PATTERN alt) text of
                      None \<Rightarrow> t = us ! i \<and> n = k
                    | Some m \<Rightarrow> if k < m then t = alt \<and> n = m else t = us ! i \<and> n = k))"
      by blast
    have "\<forall>j < Suc i. matchPattern (PATTERN ((u # us) ! j)) text = None"
      using ik(2) None by (auto simp: less_Suc_eq_0_disj)
    with ik show ?thesis
      by (rule_tac x = "Suc i" in exI, rule_tac x = k in exI) (auto split: option.splits)
  next
    case (Some k)
    with Cons.prems show ?thesis
      by (rule_tac x = 0 in exI, rule_tac x = k in exI)
         (auto split: option.splits if_splits)
  qed
qed

lemma matchToken_at:
  assumes "i < length types"
    and "\<forall>j < i. matchPattern (PATTERN (types ! j)) text = None"
    and "matchPattern (PATTERN (types ! i)) text = Some k"
  shows "matchToken types text =
           (case LONGER_ALT (types ! i) of
              None \<Rightarrow> Some (types ! i, k)
            | Some alt \<Rightarrow>
                (case matchPattern (PATTERN alt) text of
                   None \<Rightarrow> Some (types ! i, k)
                 | Some m \<Rightarrow> if k < m then Some (alt, m) else Some (types ! i, k)))"
  using assms
proof (induction types arbitrary: i)
  case Nil then show ?case by simp
next
  case (Cons u us)
  show ?case
  proof (cases i)
    case 0
    with Cons.prems show ?thesis by (auto split: option.splits)
  next
    case (Suc i')
    with Cons.prems have "matchPattern (PATTERN u) text = None" by auto
    moreover have "\<forall>j < i'. matchPattern (PATTERN (us ! j)) text = None"
      using Cons.prems(2) Suc by auto
    ultimately show ?thesis
      using Cons.IH [of i'] Cons.prems Suc by (auto split: option.splits)
  qed
qed

lemma isNameStart_class: "isNameStart c \<longleftrightarrow> charClassOf c = Ident"
  by (auto simp: char_class_defs)

lemma regexClass_Ident: "regexClass r = Ident \<longleftrightarrow> r = RX_name"
  by (cases r) simp_all

lemma regexClass_not_Other: "regexClass r \<noteq> Other"
  by (cases r) simp_all

lemma regexClass_same:
  "regexClass r = regexClass r' \<Longrightarrow>
     r = r' \<or> (r = RX_comment \<and> r' = RX_regex) \<or> (r = RX_regex \<and> r' = RX_comment)"
  by (cases r; cases r') simp_all

lemma kind_cases:
  assumes "wellFormedKind u" and "matchPattern (PATTERN u) (c # cs) = Some m"
  shows "(isNameStart c \<and>
            ((\<exists>ds. PATTERN u = Str (c # ds) \<and> list_all isNameChar ds
                   \<and> LONGER_ALT u = Some NAME \<and> m = Suc (length ds))
             \<or> (PATTERN u = Rx RX_name \<and> LONGER_ALT u = None)))
       \<or> (\<not> isNameStart c \<and> LONGER_ALT u = None \<and>
            ((PATTERN u = Str [c] \<and> m = 1 \<and> charClassOf c = Other)
             \<or> (\<exists>r. PATTERN u = Rx r \<and> r \<noteq> RX_name \<and> regexClass r = charClassOf c)))"
proof (cases "PATTERN u")
  case (Str s)
  with assms(2) obtain ds where s: "s = c # ds" and m: "m = Suc (length ds)"
    by (cases s) (auto split: if_splits)
  with assms(1) Str show ?thesis
    by (auto simp: wellFormedKind_def split: if_splits)
next
  case (Rx r)
  with assms(2) have cl: "charClassOf c = regexClass r"
    by (auto dest: matchRegex_class)
  from assms(1) Rx have "LONGER_ALT u = None" by (simp add: wellFormedKind_def)
  with cl Rx show ?thesis
    by (auto simp: isNameStart_class regexClass_Ident)
next
  case NA
  with assms(2) show ?thesis by simp
qed

lemma kind_ident:
  assumes "wellFormedKind u" and "matchPattern (PATTERN u) (c # cs) = Some m" and "isNameStart c"
  obtains (keyword) ds where "PATTERN u = Str (c # ds)" "list_all isNameChar ds"
      "LONGER_ALT u = Some NAME" "m = Suc (length ds)"
    | (name) "PATTERN u = Rx RX_name" "LONGER_ALT u = None"
  using kind_cases [OF assms(1,2)] assms(3) by auto

lemma kind_other:
  assumes "wellFormedKind u" and "matchPattern (PATTERN u) (c # cs) = Some m" and "\<not> isNameStart c"
  shows "LONGER_ALT u = None"
    and "(PATTERN u = Str [c] \<and> m = 1 \<and> charClassOf c = Other)
         \<or> (\<exists>r. PATTERN u = Rx r \<and> r \<noteq> RX_name \<and> regexClass r = charClassOf c)"
  using kind_cases [OF assms(1,2)] assms(3) by auto

lemma name_bound:
  assumes "wellFormedKind u" and "matchPattern (PATTERN u) (c # cs) = Some m"
    and "isNameStart c"
  shows "m \<le> Suc (length (takeWhile isNameChar cs))"
proof -
  from assms show ?thesis
  proof (cases rule: kind_ident)
    case (keyword ds)
    from assms(2) keyword(1) have "startsWith (c # cs) (c # ds)" by (auto split: if_splits)
    from name_dominates [OF assms(3) keyword(2) this] keyword(4) assms(3) show ?thesis by simp
  next
    case name
    with assms(2,3) show ?thesis by simp
  qed
qed

lemma longest_match_general:
  assumes wf: "list_all wellFormedKind types"
    and ord: "ordered (map PATTERN types)"
    and nm: "NAME \<in> set types"
    and mt: "matchToken types text = Some (t, n)"
  shows "t \<in> set types \<and> matchPattern (PATTERN t) text = Some n
       \<and> (\<forall>u \<in> set types. \<forall>m. matchPattern (PATTERN u) text = Some m \<longrightarrow> m \<le> n)
       \<and> (\<forall>i j. i < j \<and> j < length types \<and> types ! j = t
                 \<longrightarrow> matchPattern (PATTERN (types ! i)) text \<noteq> Some n)"
proof -
  from matchToken_first [OF mt] obtain i k where i: "i < length types"
    and before: "\<forall>j < i. matchPattern (PATTERN (types ! j)) text = None"
    and fk: "matchPattern (PATTERN (types ! i)) text = Some k"
    and res: "(case LONGER_ALT (types ! i) of
                 None \<Rightarrow> t = types ! i \<and> n = k
               | Some alt \<Rightarrow>
                   (case matchPattern (PATTERN alt) text of
                      None \<Rightarrow> t = types ! i \<and> n = k
                    | Some m \<Rightarrow> if k < m then t = alt \<and> n = m else t = types ! i \<and> n = k))"
    by blast
  let ?f = "types ! i"
  have wfn: "\<And>j. j < length types \<Longrightarrow> wellFormedKind (types ! j)"
    using wf by (simp add: list_all_length)
  have wfs: "\<And>u. u \<in> set types \<Longrightarrow> wellFormedKind u"
    using wf by (simp add: list_all_iff)
  have ordn: "\<And>a b. a < b \<Longrightarrow> b < length types
                \<Longrightarrow> \<not> mayNotFollow (PATTERN (types ! a)) (PATTERN (types ! b))"
    using ordered_nth [OF ord] by simp
  from fk obtain c cs where tx: "text = c # cs"
    by (cases "text") (simp_all add: matchPattern_Nil)
  have first: "\<And>a m. a < length types \<Longrightarrow> matchPattern (PATTERN (types ! a)) text = Some m
                 \<Longrightarrow> i \<le> a"
    using before by (metis not_le_imp_less option.distinct(1))
  show ?thesis
  proof (cases "isNameStart c")
    case True
    let ?L = "Suc (length (takeWhile isNameChar cs))"
    have nameL: "matchPattern (PATTERN NAME) text = Some ?L"
      using True by (simp add: tx)
    have bound: "\<And>u m. u \<in> set types \<Longrightarrow> matchPattern (PATTERN u) text = Some m \<Longrightarrow> m \<le> ?L"
      using name_bound True wfs unfolding tx by blast
    from wfn [OF i] fk [unfolded tx] True show ?thesis
    proof (cases rule: kind_ident)
      case (keyword ds)
      note 1 = keyword
      show ?thesis
      proof (cases "k < ?L")
        case True
        with res 1(3) nameL have t: "t = NAME" and n: "n = ?L" by simp_all
        have later: "matchPattern (PATTERN (types ! a)) text \<noteq> Some n"
          if a: "a < b" "b < length types" "types ! b = t" for a b
        proof
          assume ma: "matchPattern (PATTERN (types ! a)) text = Some n"
          have al: "a < length types" using a by simp
          from first [OF al ma] have "i \<le> a" .
          moreover have "i \<noteq> a" using ma fk True n by auto
          ultimately have ia: "i < a" by simp
          from wfn [OF al] ma [unfolded tx] \<open>isNameStart c\<close> show False
          proof (cases rule: kind_ident)
            case (keyword es)
            note 1 = keyword(1,4)
            have s1: "startsWith text (c # ds)"
              using fk \<open>PATTERN ?f = Str (c # ds)\<close> by (auto split: if_splits)
            have s2: "startsWith text (c # es)"
              using ma 1(1) by (auto split: if_splits)
            have "length (c # ds) \<le> length (c # es)"
              using \<open>k = Suc (length ds)\<close> 1(2) n True by simp
            from startsWith_both [OF s1 s2 this]
            have "mayNotFollow (PATTERN ?f) (PATTERN (types ! a))"
              using \<open>PATTERN ?f = Str (c # ds)\<close> 1(1) by simp
            with ordn [OF ia al] show False by simp
          next
            case name
            from ordn [OF a(1,2)] name(1) a(3) t show False by simp
          qed
        qed
        from t n nm nameL bound later show ?thesis by auto
      next
        case False
        with res 1(3) nameL have t: "t = ?f" and n: "n = k" by simp_all
        have "k \<le> ?L" using bound [OF nth_mem [OF i] fk] .
        with False have kL: "k = ?L" by simp
        have "matchPattern (PATTERN (types ! a)) text \<noteq> Some n"
          if a: "a < b" "b < length types" "types ! b = t" for a b
        proof
          assume ma: "matchPattern (PATTERN (types ! a)) text = Some n"
          have al: "a < length types" using a by simp
          from first [OF al ma] have ia: "i \<le> a" .
          have bi: "\<not> i < b"
          proof
            assume "i < b"
            from ordn [OF this a(2)] a(3) t 1(1) show False
              by (simp add: startsWith_self)
          qed
          with ia a(1) show False by simp
        qed
        with t n i fk bound kL show ?thesis by auto
      qed
    next
      case name
      note 2 = name
      with res have t: "t = ?f" and n: "n = k" by simp_all
      from fk 2(1) True have kL: "k = ?L" by (simp add: tx)
      have "matchPattern (PATTERN (types ! a)) text \<noteq> Some n"
        if a: "a < b" "b < length types" "types ! b = t" for a b
      proof
        assume ma: "matchPattern (PATTERN (types ! a)) text = Some n"
        have al: "a < length types" using a by simp
        from first [OF al ma] have ia: "i \<le> a" .
        have bi: "\<not> i < b"
        proof
          assume "i < b"
          from ordn [OF this a(2)] a(3) t 2(1) show False by simp
        qed
        with ia a(1) show False by simp
      qed
      with t n i fk bound kL show ?thesis by auto
    qed
  next
    case False
    have noalt: "LONGER_ALT ?f = None"
      and fcases: "(PATTERN ?f = Str [c] \<and> k = 1 \<and> charClassOf c = Other)
             \<or> (\<exists>r. PATTERN ?f = Rx r \<and> r \<noteq> RX_name \<and> regexClass r = charClassOf c)"
      by (rule kind_other [OF wfn [OF i] fk [unfolded tx] False])+
    from res noalt have t: "t = ?f" and n: "n = k" by simp_all
    have bound: "m \<le> k" if u: "u \<in> set types" and mu: "matchPattern (PATTERN u) text = Some m"
      for u m
    proof -
      from u obtain a where a: "a < length types" "types ! a = u"
        by (auto simp: in_set_conv_nth)
      from first [OF a(1)] mu a(2) have ia: "i \<le> a" by simp
      have ucases: "(PATTERN u = Str [c] \<and> m = 1 \<and> charClassOf c = Other)
             \<or> (\<exists>r. PATTERN u = Rx r \<and> r \<noteq> RX_name \<and> regexClass r = charClassOf c)"
        by (rule kind_other(2) [OF wfs [OF u] mu [unfolded tx] False])
      from fcases show ?thesis
      proof
        assume f1: "PATTERN ?f = Str [c] \<and> k = 1 \<and> charClassOf c = Other"
        with ucases show ?thesis by (auto simp: regexClass_not_Other)
      next
        assume "\<exists>r. PATTERN ?f = Rx r \<and> r \<noteq> RX_name \<and> regexClass r = charClassOf c"
        then obtain r where r: "PATTERN ?f = Rx r" "regexClass r = charClassOf c" by blast
        from ucases r(2) obtain r' where r': "PATTERN u = Rx r'" "regexClass r' = regexClass r"
          by (auto simp: regexClass_not_Other)
        from regexClass_same [OF r'(2)]
        consider "r' = r" | "r' = RX_comment" "r = RX_regex" | "r' = RX_regex" "r = RX_comment"
          by blast
        then show ?thesis
        proof cases
          case 1
          with mu fk r r' show ?thesis by simp
        next
          case 2
          have "i \<noteq> a" using r r' 2 a(2) by auto
          with ia have "i < a" by simp
          from ordn [OF this a(1)] r r' 2 a(2) show ?thesis by simp
        next
          case 3
          from comment_covers_regex [of "text" k m] fk mu r r' 3 show ?thesis by simp
        qed
      qed
    qed
    have "matchPattern (PATTERN (types ! a)) text \<noteq> Some n"
      if a: "a < b" "b < length types" "types ! b = t" for a b
    proof
      assume ma: "matchPattern (PATTERN (types ! a)) text = Some n"
      have al: "a < length types" using a by simp
      from first [OF al ma] have ia: "i \<le> a" .
      have bi: "\<not> i < b"
      proof
        assume ib: "i < b"
        from fcases show False
        proof
          assume "PATTERN ?f = Str [c] \<and> k = 1 \<and> charClassOf c = Other"
          with ordn [OF ib a(2)] a(3) t show False by (simp add: startsWith_self)
        next
          assume "\<exists>r. PATTERN ?f = Rx r \<and> r \<noteq> RX_name \<and> regexClass r = charClassOf c"
          with ordn [OF ib a(2)] a(3) t show False by auto
        qed
      qed
      with ia a(1) show False by simp
    qed
    with t n i fk bound show ?thesis by auto
  qed
qed

lemma regexTest_name_single: "\<not> isNameStart c \<Longrightarrow> \<not> regexTest RX_name [c]"
  by simp

lemma keyword_first_match:
  assumes wf: "list_all wellFormedKind types"
    and ord: "ordered (map PATTERN types)"
    and t: "t \<in> set types" and p: "PATTERN t = Str s" and k: "regexTest RX_name s"
  shows "matchToken types s = Some (t, length s) \<and> GROUP t = None \<and> s \<noteq> []"
proof -
  from t obtain j where j: "j < length types" "types ! j = t"
    by (auto simp: in_set_conv_nth)
  have wfn: "\<And>a. a < length types \<Longrightarrow> wellFormedKind (types ! a)"
    using wf by (simp add: list_all_length)
  have ordn: "\<And>a b. a < b \<Longrightarrow> b < length types
                \<Longrightarrow> \<not> mayNotFollow (PATTERN (types ! a)) (PATTERN (types ! b))"
    using ordered_nth [OF ord] by simp
  from wfn [OF j(1)] j(2) p obtain c ds where s: "s = c # ds"
    by (cases s) (auto simp: wellFormedKind_def)
  have c: "isNameStart c"
  proof (rule ccontr)
    assume "\<not> isNameStart c"
    with wfn [OF j(1)] j(2) p s have "s = [c]" by (simp add: wellFormedKind_def)
    with k \<open>\<not> isNameStart c\<close> show False by simp
  qed
  with wfn [OF j(1)] j(2) p s have ds: "list_all isNameChar ds"
    and alt: "LONGER_ALT t = Some NAME" and g: "GROUP t = None"
    by (simp_all add: wellFormedKind_def)
  have before: "\<forall>a < j. matchPattern (PATTERN (types ! a)) s = None"
  proof (intro allI impI)
    fix a assume a: "a < j"
    show "matchPattern (PATTERN (types ! a)) s = None"
    proof (rule ccontr)
      assume "matchPattern (PATTERN (types ! a)) s \<noteq> None"
      then obtain m where m: "matchPattern (PATTERN (types ! a)) (c # ds) = Some m"
        by (auto simp: s)
      have al: "a < length types" using a j(1) by simp
      from wfn [OF al] m c show False
      proof (cases rule: kind_ident)
        case (keyword es)
        from m keyword(1) have "startsWith s (c # es)" by (auto simp: s split: if_splits)
        with ordn [OF a j(1)] keyword(1) j(2) p show False by simp
      next
        case name
        with ordn [OF a j(1)] j(2) p s c show False by simp
      qed
    qed
  qed
  have here: "matchPattern (PATTERN (types ! j)) s = Some (length s)"
    using j(2) p s by (simp add: startsWith_self)
  have nm: "matchPattern (PATTERN NAME) s = Some (length s)"
    using name_exact [OF c ds] by (simp add: s)
  from matchToken_at [OF j(1) before here] j(2) alt nm
  have "matchToken types s = Some (t, length s)" by simp
  with g s show ?thesis by simp
qed

lemma keyword_tokenizes:
  assumes "list_all wellFormedKind types" and "ordered (map PATTERN types)"
    and "t \<in> set types" and "PATTERN t = Str s" and "regexTest RX_name s"
  shows "tokenize types s = ([\<lparr>image = s, startOffset = 0, tokenType = t\<rparr>], [])"
proof -
  from keyword_first_match [OF assms]
  have m: "matchToken types s = Some (t, length s)" and g: "GROUP t = None" and s: "s \<noteq> []"
    by simp_all
  from s obtain c cs where cs: "s = c # cs" by (cases s) auto
  show ?thesis
    using m g unfolding tokenize_def cs by simp
qed

lemma JDLLexer_cases:
  "t \<in> set JDLLexer \<Longrightarrow> t = NAME \<or> (\<exists>config \<in> set tokenConfigs. t = createToken config)"
  by (auto simp: JDLLexer_def tokens_def)

lemma isA_KEYWORD_NAME: "isA KEYWORD NAME"
  by (simp add: KEYWORD_def NAME_def chevrotain_createToken_def)

lemma isA_category: "c \<in> set (CATEGORIES t) \<Longrightarrow> isA c expected \<Longrightarrow> isA t expected"
  by (cases t) auto

lemma NAME_in_JDLLexer: "NAME \<in> set JDLLexer"
  by (simp add: JDLLexer_def tokens_def)

lemma APPLICATION_in_JDLLexer: "APPLICATION \<in> set JDLLexer"
  by (simp add: JDLLexer_def tokens_def tokenConfigs_def APPLICATION_def)

lemma APPLICATION_TYPE_at: "JDLLexer ! 20 = APPLICATION_TYPE" "JDLLexer ! 21 = APPLICATION"
  "length JDLLexer = 83"
  by (simp_all add: JDLLexer_def tokens_def tokenConfigs_def APPLICATION_TYPE_def APPLICATION_def)

lemma literal_order:
  assumes "ordered (map PATTERN types)"
    and "i < length types" and "j < length types"
    and "PATTERN (types ! i) = Str a" and "PATTERN (types ! j) = Str b"
    and "startsWith b a" and "a \<noteq> b"
  shows "j < i"
proof (rule ccontr)
  assume "\<not> j < i"
  with assms(4,5,7) have "i < j" by (cases "i = j") auto
  from ordered_nth [OF assms(1) this] assms(2,3,4,5,6) \<open>i < j\<close> show False by simp
qed

lemma matchToken_none_iff:
  "matchToken types text = None \<longleftrightarrow> (\<forall>u \<in> set types. matchPattern (PATTERN u) text = None)"
  by (induction types) (auto split: option.splits)

lemma longest_first_determines:
  assumes wf: "list_all wellFormedKind types"
    and ord: "ordered (map PATTERN types)"
    and nm: "NAME \<in> set types"
    and t: "t \<in> set types" and m: "matchPattern (PATTERN t) text = Some n"
    and mx: "\<forall>u \<in> set types. \<forall>m. matchPattern (PATTERN u) text = Some m \<longrightarrow> m \<le> n"
    and fs: "\<forall>i j. i < j \<and> j < length types \<and> types ! j = t
               \<longrightarrow> matchPattern (PATTERN (types ! i)) text \<noteq> Some n"
  shows "matchToken types text = Some (t, n)"
proof -
  have "matchToken types text \<noteq> None"
    using t m by (auto simp: matchToken_none_iff)
  then obtain t' n' where mt: "matchToken types text = Some (t', n')" by auto
  from longest_match_general [OF wf ord nm mt]
  have t': "t' \<in> set types" and m': "matchPattern (PATTERN t') text = Some n'"
    and mx': "\<forall>u \<in> set types. \<forall>m. matchPattern (PATTERN u) text = Some m \<longrightarrow> m \<le> n'"
    and fs': "\<forall>i j. i < j \<and> j < length types \<and> types ! j = t'
               \<longrightarrow> matchPattern (PATTERN (types ! i)) text \<noteq> Some n'"
    by blast+
  have n: "n' = n"
    using mx t' m' mx' t m by (meson le_antisym)
  from t obtain j where j: "j < length types" "types ! j = t" by (auto simp: in_set_conv_nth)
  from t' obtain j' where j': "j' < length types" "types ! j' = t'" by (auto simp: in_set_conv_nth)
  have "\<not> j' < j" using fs j j' m' n by auto
  moreover have "\<not> j < j'" using fs' j j' m n by auto
  ultimately have "j = j'" by simp
  with j j' n mt show ?thesis by simp
qed

lemma matchToken_Nil: "matchToken types [] = None"
  by (simp add: matchToken_none_iff matchPattern_Nil)

lemma tokenizeFrom_step:
  assumes "matchToken types text = Some (t, n)"
  shows "tokenizeFrom types text off =
           (case tokenizeFrom types (drop n text) (off + n) of
              (toks, errs) \<Rightarrow>
                (if GROUP t = Some SKIPPED then (toks, errs)
                 else (\<lparr>image = take n text, startOffset = off, tokenType = t\<rparr> # toks, errs)))"
proof (cases "text")
  case Nil
  with assms show ?thesis by (simp add: matchToken_Nil)
next
  case (Cons c cs)
  show ?thesis using assms unfolding Cons by simp
qed

lemma resync_props:
  "resync types cs \<le> length cs
   \<and> (\<forall>i < resync types cs. matchToken types (drop i cs) = None)
   \<and> (resync types cs < length cs \<longrightarrow> matchToken types (drop (resync types cs) cs) \<noteq> None)"
proof (induction cs)
  case Nil show ?case by simp
next
  case (Cons c cs)
  show ?case
  proof (cases "matchToken types (c # cs) \<noteq> None")
    case True then show ?thesis by simp
  next
    case False
    then have none: "matchToken types (c # cs) = None"
      by (cases "matchToken types (c # cs)") auto
    have "\<forall>i < Suc (resync types cs). matchToken types (drop i (c # cs)) = None"
    proof (intro allI impI)
      fix i assume "i < Suc (resync types cs)"
      then show "matchToken types (drop i (c # cs)) = None"
        using none Cons by (cases i) auto
    qed
    with none Cons show ?thesis by simp
  qed
qed

lemma tokenizeFrom_error:
  assumes "text \<noteq> []" and "matchToken types text = None"
  shows "\<exists>k. 0 < k \<and> k \<le> length text
           \<and> (\<forall>i < k. matchToken types (drop i text) = None)
           \<and> (k < length text \<longrightarrow> matchToken types (drop k text) \<noteq> None)
           \<and> tokenizeFrom types text off =
               (case tokenizeFrom types (drop k text) (off + k) of
                  (toks, errs) \<Rightarrow> (toks, \<lparr>offset = off, length_err = k\<rparr> # errs))"
proof -
  from assms(1) obtain c cs where cs: "text = c # cs" by (cases "text") auto
  let ?k = "Suc (resync types cs)"
  note r = resync_props [of types cs]
  have 1: "\<forall>i < ?k. matchToken types (drop i text) = None"
  proof (intro allI impI)
    fix i assume "i < ?k"
    then show "matchToken types (drop i text) = None"
      using assms(2) r unfolding cs by (cases i) auto
  qed
  have 2: "tokenizeFrom types text off =
               (case tokenizeFrom types (drop ?k text) (off + ?k) of
                  (toks, errs) \<Rightarrow> (toks, \<lparr>offset = off, length_err = ?k\<rparr> # errs))"
    using assms(2) unfolding cs by (simp add: Let_def)
  show ?thesis
    apply (rule exI [of _ ?k])
    using 1 2 r unfolding cs by simp
qed

lemma match_application_space: "matchToken JDLLexer ''application applicationType'' = Some (APPLICATION, 11)"
  by (simp add: JDLLexer_def tokens_def tokenConfigs_def APPLICATION_def char_class_defs
        BOOLEAN_def CONFIG_KEY_def MIN_MAX_KEYWORD_def createToken_LONGER_ALT)

lemma match_space: "matchToken JDLLexer '' applicationType'' = Some (JDLLexer ! 2, 1)"
  "GROUP (JDLLexer ! 2) = Some SKIPPED"
  by (simp_all add: JDLLexer_def tokens_def tokenConfigs_def char_class_defs
        BOOLEAN_def CONFIG_KEY_def MIN_MAX_KEYWORD_def createToken_LONGER_ALT)

lemma tokenize_application_applicationType: "tokenize JDLLexer ''application applicationType''
     = ([\<lparr>image = ''application'', startOffset = 0, tokenType = APPLICATION\<rparr>,
         \<lparr>image = ''applicationType'', startOffset = 12, tokenType = APPLICATION_TYPE\<rparr>], [])"
proof -
  have at: "APPLICATION_TYPE \<in> set JDLLexer"
    using nth_mem [of 20 JDLLexer] by (simp add: APPLICATION_TYPE_at)
  have m3: "matchToken JDLLexer ''applicationType'' = Some (APPLICATION_TYPE, 15)"
    using keyword_first_match [OF JDLLexer_wellFormed JDLLexer_ordered at,
            of "''applicationType''"]
    by (simp add: APPLICATION_TYPE_def isNameStart_def)
  have g: "GROUP APPLICATION = None" "GROUP APPLICATION_TYPE = None"
    by (simp_all add: APPLICATION_def APPLICATION_TYPE_def)
  have 3: "tokenizeFrom JDLLexer ''applicationType'' 12
            = ([\<lparr>image = ''applicationType'', startOffset = 12, tokenType = APPLICATION_TYPE\<rparr>], [])"
    by (subst tokenizeFrom_step [OF m3]) (simp add: g del: tokenizeFrom.simps(2))
  have 2: "tokenizeFrom JDLLexer '' applicationType'' 11
            = ([\<lparr>image = ''applicationType'', startOffset = 12, tokenType = APPLICATION_TYPE\<rparr>], [])"
    by (subst tokenizeFrom_step [OF match_space(1)]) (simp add: match_space(2) 3 del: tokenizeFrom.simps(2))
  show ?thesis
    unfolding tokenize_def by (subst tokenizeFrom_step [OF match_application_space]) (simp add: g 2 del: tokenizeFrom.simps(2))
qed

section \<open>The claims\<close>

text \<open>
  Claim C1. The claim: when neither side of a relationship declares an injected-field name,
  the from side's injected-field name of the assembled relationship is the lower-first form
  of the \<open>to\<close> entity's name. \<open>fillAssociations\<close> takes \<open>relationship.from.name\<close> instead: for the
  document with entities \<open>A\<close> and \<open>B\<close> and the relationship \<open>A to B\<close> without injected fields, the
  assembled relationship's \<open>injectedFieldInFrom\<close> is \<open>a\<close>, the lower-first form of the from
  entity's own name, where the claim says \<open>b\<close>.
\<close>

theorem default_injected_field_from_own_name:
  "map (\<lambda>r. (s_name (r_from r), s_injectedfield (r_from r), s_name (r_to r), s_injectedfield (r_to r)))
     (d_relationships documentAtoB) = [(''A'', None, ''B'', None)]
   \<and> map (\<lambda>r. (jr_injectedFieldInFrom r, jr_injectedFieldInTo r))
     (relationships (jdlObject (projr (parseFromConfigurationObject exampleExternals
                                          (configurationOf documentAtoB))))) = [(Some ''a'', None)]
   \<and> lowerFirst ''B'' = ''b'' \<and> lowerFirst ''A'' = ''a''"
proof -
  obtain st where st: "parseFromConfigurationObject exampleExternals (configurationOf documentAtoB) = Inr st"
    by (rule exE [OF parse_configurationOf [where doc = documentAtoB and ext = exampleExternals]])
       (simp_all add: resolved_iff documentAtoB_def example_defs)
  have doc: "c_document (configurationOf documentAtoB) = Some documentAtoB"
    by (simp add: configurationOf_def)
  have "relationships (jdlObject st) =
          map (assembledRelationship exampleExternals (assembledEntities exampleExternals documentAtoB))
            (d_relationships documentAtoB)"
    by (rule parse_result(5) [OF st doc])
  then have "map (\<lambda>r. (jr_injectedFieldInFrom r, jr_injectedFieldInTo r))
               (relationships (jdlObject st)) = [(Some ''a'', None)]"
    by (simp add: documentAtoB_def example_defs assembledRelationship_def relationshipAfter_def
          truthy_def char_defs)
  then show ?thesis by (simp add: st char_defs) (simp add: documentAtoB_def example_defs)
qed

text \<open>
  Claim C2. The claim: for every document with a relationship whose to-side name equals
  \<open>User\<close> case-insensitively and with no declared entity named exactly \<open>User\<close>, the assembled
  graph contains the entity \<open>User\<close> (table \<open>jhi_user\<close>, no fields), installed before any
  relationship, so such relationships resolve their User endpoint. \<open>getUserRelationships\<close>
  compares lower-cased names, but \<open>fillAssociations\<close> looks the endpoint up under the name
  exactly as written: for the document with the entity \<open>A\<close> and the relationship \<open>A to user\<close>,
  once the entities are filled the graph has \<open>User\<close> and nothing under \<open>user\<close>, the
  relationship object cannot be built, and the call fails instead of returning a graph. The
  same document with the to side written \<open>User\<close> is assembled, and its relationship ends in
  the synthesized entity.
\<close>

theorem lower_case_user_fails:
  "map e_name (d_entities documentAtoLowerUser) = [''A'']
   \<and> map (\<lambda>r. (s_name (r_from r), s_name (r_to r))) (d_relationships documentAtoLowerUser)
       = [(''A'', ''user'')]
   \<and> toLowerCase ''user'' = toLowerCase USER
   \<and> (let s3 = fillClassesAndFields exampleExternals (fillEnums exampleExternals
                  (fillApplications exampleExternals
                     (init (configurationOf documentAtoLowerUser) documentAtoLowerUser)))
      in entities (jdlObject s3) ''User''
           = Some \<lparr>je_name = ''User'', je_tableName = ''jhi_user'', je_fields = Map.empty,
                    je_comment = None\<rparr>
         \<and> entities (jdlObject s3) ''user'' = None
         \<and> fillAssociations exampleExternals s3 = Inl UnresolvedReference)
   \<and> parseFromConfigurationObject exampleExternals (configurationOf documentAtoLowerUser)
       = Inl UnresolvedReference
   \<and> map (\<lambda>r. (s_name (r_from r), s_name (r_to r))) (d_relationships documentAtoUser)
       = [(''A'', ''User'')]
   \<and> map jr_to (relationships (jdlObject (projr (parseFromConfigurationObject exampleExternals
                                                 (configurationOf documentAtoUser)))))
       = [\<lparr>je_name = ''User'', je_tableName = ''jhi_user'', je_fields = Map.empty,
            je_comment = None\<rparr>]"
proof -
  let ?s3 = "fillClassesAndFields exampleExternals (fillEnums exampleExternals
               (fillApplications exampleExternals
                  (init (configurationOf documentAtoLowerUser) documentAtoLowerUser)))"
  have doc: "c_document (configurationOf documentAtoLowerUser) = Some documentAtoLowerUser"
    by (simp add: configurationOf_def)
  have lc: "toLowerCase ''user'' = toLowerCase USER" by (simp add: char_defs USER_def)
  have e3: "entities (jdlObject ?s3) = assembledEntities exampleExternals documentAtoLowerUser"
    by (rule before_associations(4))
  have d3: "d_relationships (st_document ?s3) = d_relationships documentAtoLowerUser"
    by (simp add: before_associations(2))
  have u: "assembledEntities exampleExternals documentAtoLowerUser ''User'' = Some userEntity"
    by (rule assembledEntities_user) (simp_all add: documentAtoLowerUser_def example_defs char_defs)
  have l: "assembledEntities exampleExternals documentAtoLowerUser ''user'' = None"
    by (simp add: assembledEntities_def declaredEntities_def documentAtoLowerUser_def
          example_defs USER_def)
  have nr: "\<not> (\<forall>rel \<in> set (d_relationships documentAtoLowerUser).
                resolved (assembledEntities exampleExternals documentAtoLowerUser) rel)"
    using l by (simp add: resolved_def documentAtoLowerUser_def example_defs)
  have f: "fillAssociations exampleExternals ?s3 = Inl UnresolvedReference"
    using nr unfolding fillAssociations_eq e3 d3 by simp
  have p: "parseFromConfigurationObject exampleExternals (configurationOf documentAtoLowerUser)
             = Inl UnresolvedReference"
    by (rule parse_cases(2) [OF doc nr])
  obtain st where st: "parseFromConfigurationObject exampleExternals
                         (configurationOf documentAtoUser) = Inr st"
    by (rule exE [OF parse_configurationOf [where doc = documentAtoUser
                       and ext = exampleExternals]])
       (simp_all add: resolved_iff documentAtoUser_def example_defs char_defs USER_def)
  have doc': "c_document (configurationOf documentAtoUser) = Some documentAtoUser"
    by (simp add: configurationOf_def)
  have u': "assembledEntities exampleExternals documentAtoUser ''User'' = Some userEntity"
    by (rule assembledEntities_user) (simp_all add: documentAtoUser_def example_defs char_defs)
  have "relationships (jdlObject st) =
          map (assembledRelationship exampleExternals
                 (assembledEntities exampleExternals documentAtoUser))
            (d_relationships documentAtoUser)"
    by (rule parse_result(5) [OF st doc'])
  then have r: "map jr_to (relationships (jdlObject st)) = [userEntity]"
    using u' by (simp add: documentAtoUser_def example_defs assembledRelationship_def)
  have docs: "map e_name (d_entities documentAtoLowerUser) = [''A'']"
    "map (\<lambda>r. (s_name (r_from r), s_name (r_to r))) (d_relationships documentAtoLowerUser)
       = [(''A'', ''user'')]"
    "map (\<lambda>r. (s_name (r_from r), s_name (r_to r))) (d_relationships documentAtoUser)
       = [(''A'', ''User'')]"
    by (simp_all add: documentAtoLowerUser_def documentAtoUser_def example_defs)
  show ?thesis
    unfolding Let_def
    using docs lc f p r u l by (simp only: e3 st sum.sel userEntity_eq simp_thms)
qed

text \<open>
  Claim C3. No entity of the assembled graph has a field under a name that equals \<open>id\<close>
  case-insensitively, whatever the type and validations of the declared field. For a
  declared entity (the last declaration of its name, which is the one the graph keeps)
  every field of its body whose lower-first name is not \<open>id\<close> case-insensitively appears in
  the entity's field mapping under its lower-first name, and carries that name:
  \<open>firstName\<close> stays \<open>firstName\<close>, \<open>Email\<close> becomes \<open>email\<close>.
\<close>

theorem id_fields_dropped_names_normalized:
  assumes "parseFromConfigurationObject ext config = Inr st"
    and "c_document config = Some doc"
  shows "(\<forall>n E k. entities (jdlObject st) n = Some E \<and> toLowerCase k = ''id''
            \<longrightarrow> je_fields E k = None)
       \<and> (\<forall>pre e post f.
             d_entities doc = pre @ e # post \<and> e_name e \<notin> e_name ` set post
             \<and> f \<in> set (e_body e) \<and> toLowerCase (lowerFirst (f_name f)) \<noteq> ''id''
             \<longrightarrow> (\<exists>E F. entities (jdlObject st) (e_name e) = Some E
                         \<and> je_fields E (lowerFirst (f_name f)) = Some F
                         \<and> jf_name F = lowerFirst (f_name f)))
       \<and> lowerFirst ''firstName'' = ''firstName'' \<and> lowerFirst ''Email'' = ''email''"
proof -
  have ents: "entities (jdlObject st) = assembledEntities ext doc"
    by (rule parse_result(4) [OF assms])
  have a: "\<forall>n E k. entities (jdlObject st) n = Some E \<and> toLowerCase k = ''id''
            \<longrightarrow> je_fields E k = None"
  proof (intro allI impI)
    fix n E k
    assume h: "entities (jdlObject st) n = Some E \<and> toLowerCase k = ''id''"
    then have "E = userEntity \<or> (\<exists>e \<in> set (d_entities doc). E = assembledEntity ext (d_constants doc) e)"
      using assembledEntities_Some [of ext doc n E] by (simp add: ents)
    then show "je_fields E k = None"
      using h by (auto simp: userEntity_def assembledField_no_id)
  qed
  have b: "\<forall>pre e post f.
             d_entities doc = pre @ e # post \<and> e_name e \<notin> e_name ` set post
             \<and> f \<in> set (e_body e) \<and> toLowerCase (lowerFirst (f_name f)) \<noteq> ''id''
             \<longrightarrow> (\<exists>E F. entities (jdlObject st) (e_name e) = Some E
                         \<and> je_fields E (lowerFirst (f_name f)) = Some F
                         \<and> jf_name F = lowerFirst (f_name f))"
  proof (intro allI impI)
    fix pre e post f
    assume h: "d_entities doc = pre @ e # post \<and> e_name e \<notin> e_name ` set post
             \<and> f \<in> set (e_body e) \<and> toLowerCase (lowerFirst (f_name f)) \<noteq> ''id''"
    then have E: "entities (jdlObject st) (e_name e) = Some (assembledEntity ext (d_constants doc) e)"
      using assembledEntities_last [of doc pre e post ext] by (simp add: ents)
    from h have "\<not> isId f" by (simp add: isId_def)
    with h obtain F where
      "je_fields (assembledEntity ext (d_constants doc) e) (lowerFirst (f_name f)) = Some F"
      "jf_name F = lowerFirst (f_name f)"
      using assembledField_present [of f e ext "d_constants doc"] by blast
    with E show "\<exists>E F. entities (jdlObject st) (e_name e) = Some E
                         \<and> je_fields E (lowerFirst (f_name f)) = Some F
                         \<and> jf_name F = lowerFirst (f_name f)"
      by blast
  qed
  have c: "lowerFirst ''firstName'' = ''firstName'' \<and> lowerFirst ''Email'' = ''email''"
    by (simp add: char_defs)
  from a b c show ?thesis by blast
qed

theorem id_fields_dropped_names_normalized_witness:
  "\<exists>st E. parseFromConfigurationObject exampleExternals (configurationOf documentPerson) = Inr st
      \<and> entities (jdlObject st) ''Person'' = Some E
      \<and> je_fields E ''id'' = None \<and> je_fields E ''Id'' = None
      \<and> map_option jf_name (je_fields E ''firstName'') = Some ''firstName''
      \<and> map_option jf_name (je_fields E ''email'') = Some ''email''"
proof -
  obtain st where st: "parseFromConfigurationObject exampleExternals
                         (configurationOf documentPerson) = Inr st"
    by (rule exE [OF parse_configurationOf [where doc = documentPerson and ext = exampleExternals]])
       (simp_all add: documentPerson_def example_defs)
  have doc: "c_document (configurationOf documentPerson) = Some documentPerson"
    by (simp add: configurationOf_def)
  note T = id_fields_dropped_names_normalized [OF st doc]
  let ?person = "hd (d_entities documentPerson)"
  have d: "d_entities documentPerson = [] @ ?person # []" "e_name ?person = ''Person''"
    "e_name ?person \<notin> e_name ` set []"
    by (simp_all add: documentPerson_def example_defs)
  have f1: "\<lparr>f_name = ''firstName'', f_type = ''String'', f_javadoc = None,
             f_validations = []\<rparr> \<in> set (e_body ?person)"
    by (simp add: documentPerson_def example_defs)
  have f2: "\<lparr>f_name = ''Email'', f_type = ''String'', f_javadoc = None,
             f_validations = [\<lparr>v_key = ''maxlength'', v_value = Some ''MAXLEN'',
                                v_constant = True\<rparr>]\<rparr> \<in> set (e_body ?person)"
    by (simp add: documentPerson_def example_defs)
  from T d f1 have "\<exists>E F. entities (jdlObject st) ''Person'' = Some E
                         \<and> je_fields E ''firstName'' = Some F \<and> jf_name F = ''firstName''"
    by (auto simp: char_defs dest!: spec [where x = "[]"] spec [where x = "?person"])
  then obtain E F1 where E: "entities (jdlObject st) ''Person'' = Some E"
    and F1: "je_fields E ''firstName'' = Some F1" "jf_name F1 = ''firstName''" by blast
  have lf: "lowerFirst ''Email'' = ''email''" by (simp add: char_defs)
  have ne: "toLowerCase (lowerFirst ''Email'') \<noteq> ''id''" by (simp add: char_defs)
  from T have "d_entities documentPerson = [] @ ?person # [] \<and>
       e_name ?person \<notin> e_name ` set [] \<and>
       \<lparr>f_name = ''Email'', f_type = ''String'', f_javadoc = None,
             f_validations = [\<lparr>v_key = ''maxlength'', v_value = Some ''MAXLEN'',
                                v_constant = True\<rparr>]\<rparr> \<in> set (e_body ?person) \<and>
       toLowerCase (lowerFirst ''Email'') \<noteq> ''id'' \<longrightarrow>
       (\<exists>E F. entities (jdlObject st) (e_name ?person) = Some E
                         \<and> je_fields E (lowerFirst ''Email'') = Some F
                         \<and> jf_name F = lowerFirst ''Email'')"
    by (auto dest!: spec [where x = "[]"] spec [where x = "?person"])
  with d f2 ne lf E obtain F2 where F2: "je_fields E ''email'' = Some F2" "jf_name F2 = ''email''"
    by auto
  from T E have "je_fields E ''id'' = None \<and> je_fields E ''Id'' = None"
    by (auto simp: char_defs)
  with st E F1 F2 show ?thesis by simp
qed

text \<open>
  Claim C4. For every application block, the members handed to the application are the
  names of all entities declared in the document when the block's list contains the
  wildcard \<open>*\<close>, and the given list otherwise, in both cases without the excluded names.
  The graph files applications by name, a later block of a name replacing an earlier one;
  for the block the graph keeps under its name, the assembled application holds these
  members as an ordered set (each name once, in order of first occurrence): as a set, all
  declared names minus the excluded ones with the wildcard, the listed names minus the
  excluded ones without it. Conversely every application of the graph is assembled from a
  block of the document in this way.
\<close>

theorem application_entities:
  assumes "parseFromConfigurationObject ext config = Inr st"
    and "c_document config = Some doc"
  shows "(\<forall>app. getApplicationEntities doc app =
            filter (\<lambda>n. n \<notin> set (excluded (a_entities app)))
              (if ''*'' \<in> set (entityList (a_entities app))
               then map e_name (d_entities doc) else entityList (a_entities app)))
       \<and> (\<forall>pre app post.
            d_applications doc = pre @ app # post
            \<and> applicationKey ext (c_generatorVersion config) app
                 \<notin> applicationKey ext (c_generatorVersion config) ` set post \<longrightarrow>
            (\<exists>A. applications (jdlObject st) (applicationKey ext (c_generatorVersion config) app)
                   = Some A
                \<and> distinct (ja_entities A)
                \<and> (''*'' \<in> set (entityList (a_entities app)) \<longrightarrow>
                      ja_entities A = orderedSet (filter (\<lambda>n. n \<notin> set (excluded (a_entities app)))
                                        (map e_name (d_entities doc)))
                      \<and> set (ja_entities A)
                          = e_name ` set (d_entities doc) - set (excluded (a_entities app)))
                \<and> (''*'' \<notin> set (entityList (a_entities app)) \<longrightarrow>
                      ja_entities A = orderedSet (filter (\<lambda>n. n \<notin> set (excluded (a_entities app)))
                                        (entityList (a_entities app)))
                      \<and> set (ja_entities A)
                          = set (entityList (a_entities app)) - set (excluded (a_entities app)))))
       \<and> (\<forall>n A. applications (jdlObject st) n = Some A \<longrightarrow>
            (\<exists>app \<in> set (d_applications doc).
                n = applicationKey ext (c_generatorVersion config) app
                \<and> distinct (ja_entities A)
                \<and> (''*'' \<in> set (entityList (a_entities app)) \<longrightarrow>
                      set (ja_entities A)
                        = e_name ` set (d_entities doc) - set (excluded (a_entities app)))
                \<and> (''*'' \<notin> set (entityList (a_entities app)) \<longrightarrow>
                      set (ja_entities A)
                        = set (entityList (a_entities app)) - set (excluded (a_entities app)))))"
proof -
  let ?gv = "c_generatorVersion config"
  let ?f = "\<lambda>app. (applicationKey ext ?gv app, assembledApplication ?gv doc app)"
  have apps: "applications (jdlObject st) = map_of (rev (map ?f (d_applications doc)))"
    using parse_result(3) [OF assms] by (simp add: assembledApplications_def)
  have g: "\<And>app. getApplicationEntities doc app =
             filter (\<lambda>n. n \<notin> set (excluded (a_entities app)))
               (if ''*'' \<in> set (entityList (a_entities app))
                then map e_name (d_entities doc) else entityList (a_entities app))"
    by (simp add: getApplicationEntities_def Let_def)
  have members: "\<And>app. distinct (ja_entities (assembledApplication ?gv doc app))
      \<and> (''*'' \<in> set (entityList (a_entities app)) \<longrightarrow>
            ja_entities (assembledApplication ?gv doc app)
              = orderedSet (filter (\<lambda>n. n \<notin> set (excluded (a_entities app)))
                              (map e_name (d_entities doc)))
            \<and> set (ja_entities (assembledApplication ?gv doc app))
                = e_name ` set (d_entities doc) - set (excluded (a_entities app)))
      \<and> (''*'' \<notin> set (entityList (a_entities app)) \<longrightarrow>
            ja_entities (assembledApplication ?gv doc app)
              = orderedSet (filter (\<lambda>n. n \<notin> set (excluded (a_entities app)))
                              (entityList (a_entities app)))
            \<and> set (ja_entities (assembledApplication ?gv doc app))
                = set (entityList (a_entities app)) - set (excluded (a_entities app)))"
    by (auto simp: assembledApplication_def new_JDLApplication_def g)
  have last: "\<And>pre app post. d_applications doc = pre @ app # post \<Longrightarrow>
                applicationKey ext ?gv app \<notin> applicationKey ext ?gv ` set post \<Longrightarrow>
                applications (jdlObject st) (applicationKey ext ?gv app)
                  = Some (assembledApplication ?gv doc app)"
  proof -
    fix pre app post
    assume d: "d_applications doc = pre @ app # post"
      and k: "applicationKey ext ?gv app \<notin> applicationKey ext ?gv ` set post"
    have "applicationKey ext ?gv app \<notin> fst ` set (map ?f post)"
      using k by (simp add: image_image)
    then have "map_of (rev (map ?f pre @ (applicationKey ext ?gv app,
                 assembledApplication ?gv doc app) # map ?f post)) (applicationKey ext ?gv app)
               = Some (assembledApplication ?gv doc app)"
      by (rule map_of_rev_last')
    then show "applications (jdlObject st) (applicationKey ext ?gv app)
                  = Some (assembledApplication ?gv doc app)"
      by (simp add: apps d)
  qed
  have some: "\<And>n A. applications (jdlObject st) n = Some A \<Longrightarrow>
                \<exists>app \<in> set (d_applications doc).
                   n = applicationKey ext ?gv app \<and> A = assembledApplication ?gv doc app"
    by (auto simp: apps dest!: map_of_SomeD)
  show ?thesis
  proof (intro conjI allI impI)
    fix app
    show "getApplicationEntities doc app =
            filter (\<lambda>n. n \<notin> set (excluded (a_entities app)))
              (if ''*'' \<in> set (entityList (a_entities app))
               then map e_name (d_entities doc) else entityList (a_entities app))"
      by (rule g)
  next
    fix pre app post
    assume "d_applications doc = pre @ app # post
            \<and> applicationKey ext ?gv app \<notin> applicationKey ext ?gv ` set post"
    then have "applications (jdlObject st) (applicationKey ext ?gv app)
                  = Some (assembledApplication ?gv doc app)"
      using last by blast
    with members [of app]
    show "\<exists>A. applications (jdlObject st) (applicationKey ext ?gv app) = Some A
                \<and> distinct (ja_entities A)
                \<and> (''*'' \<in> set (entityList (a_entities app)) \<longrightarrow>
                      ja_entities A = orderedSet (filter (\<lambda>n. n \<notin> set (excluded (a_entities app)))
                                        (map e_name (d_entities doc)))
                      \<and> set (ja_entities A)
                          = e_name ` set (d_entities doc) - set (excluded (a_entities app)))
                \<and> (''*'' \<notin> set (entityList (a_entities app)) \<longrightarrow>
                      ja_entities A = orderedSet (filter (\<lambda>n. n \<notin> set (excluded (a_entities app)))
                                        (entityList (a_entities app)))
                      \<and> set (ja_entities A)
                          = set (entityList (a_entities app)) - set (excluded (a_entities app)))"
      by blast
  next
    fix n A
    assume "applications (jdlObject st) n = Some A"
    from some [OF this] obtain app where a: "app \<in> set (d_applications doc)"
      and n: "n = applicationKey ext ?gv app" and A: "A = assembledApplication ?gv doc app"
      by blast
    show "\<exists>app \<in> set (d_applications doc).
                n = applicationKey ext ?gv app
                \<and> distinct (ja_entities A)
                \<and> (''*'' \<in> set (entityList (a_entities app)) \<longrightarrow>
                      set (ja_entities A)
                        = e_name ` set (d_entities doc) - set (excluded (a_entities app)))
                \<and> (''*'' \<notin> set (entityList (a_entities app)) \<longrightarrow>
                      set (ja_entities A)
                        = set (entityList (a_entities app)) - set (excluded (a_entities app)))"
      using a n members [of app] unfolding A by blast
  qed
qed

theorem application_entities_witness:
  "map e_name (d_entities documentFooBarBaz) = [''Foo'', ''Bar'', ''Baz''] \<and>
   map a_entities (d_applications documentFooBarBaz)
     = [\<lparr>entityList = [''*''], excluded = [''Foo'']\<rparr>,
        \<lparr>entityList = [''Baz'', ''Foo'', ''Baz'', ''Bar''], excluded = [''Bar'']\<rparr>] \<and>
   map (applicationKey exampleExternals None) (d_applications documentFooBarBaz)
     = [''shop'', ''desk''] \<and>
   (\<exists>st. parseFromConfigurationObject exampleExternals (configurationOf documentFooBarBaz) = Inr st
      \<and> map_option ja_entities (applications (jdlObject st) ''shop'') = Some [''Bar'', ''Baz'']
      \<and> map_option ja_entities (applications (jdlObject st) ''desk'') = Some [''Baz'', ''Foo''])"
proof -
  let ?shop = "\<lparr>a_config = [''baseName'' \<mapsto> ''shop''],
                a_entities = \<lparr>entityList = [''*''], excluded = [''Foo'']\<rparr>\<rparr>"
  let ?desk = "\<lparr>a_config = [''baseName'' \<mapsto> ''desk''],
                a_entities = \<lparr>entityList = [''Baz'', ''Foo'', ''Baz'', ''Bar''],
                               excluded = [''Bar'']\<rparr>\<rparr>"
  obtain st where st: "parseFromConfigurationObject exampleExternals
                         (configurationOf documentFooBarBaz) = Inr st"
    by (rule exE [OF parse_configurationOf [where doc = documentFooBarBaz
                       and ext = exampleExternals]])
       (simp_all add: documentFooBarBaz_def example_defs)
  have doc: "c_document (configurationOf documentFooBarBaz) = Some documentFooBarBaz"
    by (simp add: configurationOf_def)
  have gv: "c_generatorVersion (configurationOf documentFooBarBaz) = None"
    by (simp add: configurationOf_def)
  have keys: "applicationKey exampleExternals None ?shop = ''shop''"
             "applicationKey exampleExternals None ?desk = ''desk''"
    by (simp_all add: applicationKey_def applicationAfter_def truthy_def exampleExternals_def
          propertyKey_def)
  note T = application_entities [OF st doc, unfolded gv]
  from T have L: "\<forall>pre app post.
            d_applications documentFooBarBaz = pre @ app # post
            \<and> applicationKey exampleExternals None app
                 \<notin> applicationKey exampleExternals None ` set post \<longrightarrow>
            (\<exists>A. applications (jdlObject st) (applicationKey exampleExternals None app) = Some A
                \<and> distinct (ja_entities A)
                \<and> (''*'' \<in> set (entityList (a_entities app)) \<longrightarrow>
                      ja_entities A = orderedSet (filter (\<lambda>n. n \<notin> set (excluded (a_entities app)))
                                        (map e_name (d_entities documentFooBarBaz)))
                      \<and> set (ja_entities A)
                          = e_name ` set (d_entities documentFooBarBaz)
                              - set (excluded (a_entities app)))
                \<and> (''*'' \<notin> set (entityList (a_entities app)) \<longrightarrow>
                      ja_entities A = orderedSet (filter (\<lambda>n. n \<notin> set (excluded (a_entities app)))
                                        (entityList (a_entities app)))
                      \<and> set (ja_entities A)
                          = set (entityList (a_entities app)) - set (excluded (a_entities app))))"
    by blast
  have s: "map_option ja_entities (applications (jdlObject st) ''shop'') = Some [''Bar'', ''Baz'']"
    using L [rule_format, of "[]" ?shop "[?desk]"] keys
    by (auto simp: documentFooBarBaz_def example_defs)
  have d: "map_option ja_entities (applications (jdlObject st) ''desk'') = Some [''Baz'', ''Foo'']"
    using L [rule_format, of "[?shop]" ?desk "[]"] keys
    by (auto simp: documentFooBarBaz_def example_defs)
  show ?thesis
    using st s d keys by (simp add: documentFooBarBaz_def example_defs)
qed

text \<open>
  Claim C5. Take a validation \<open>v\<close> of a field \<open>f\<close> of a declared entity \<open>e\<close>, each the last of
  its key or name (the one the mappings keep) and \<open>f\<close> not an \<open>id\<close> field. The assembled
  validation is stored under \<open>v\<close>'s key in the assembled field; if \<open>v\<close> is flagged as a
  constant its stored value is the entry of the document's constants table under the name
  \<open>v\<close> gives (nothing when the table has no such entry), otherwise it is \<open>v\<close>'s value as
  given. The name itself is stored only if the table maps the name to itself.
\<close>

theorem constant_validation_resolved:
  assumes "parseFromConfigurationObject ext config = Inr st"
    and "c_document config = Some doc"
    and "d_entities doc = pre @ e # post" and "e_name e \<notin> e_name ` set post"
    and "e_body e = fpre @ f # fpost" and "toLowerCase (lowerFirst (f_name f)) \<noteq> ''id''"
    and "lowerFirst (f_name f) \<notin> (\<lambda>g. lowerFirst (f_name g)) ` set fpost"
    and "f_validations f = vpre @ v # vpost" and "v_key v \<notin> v_key ` set vpost"
  shows "\<exists>E F V. entities (jdlObject st) (e_name e) = Some E
           \<and> je_fields E (lowerFirst (f_name f)) = Some F
           \<and> jf_validations F (v_key v) = Some V
           \<and> jv_name V = v_key v
           \<and> jv_value V = (if v_constant v then d_constants doc (propertyKey (v_value v))
                            else v_value v)"
proof -
  have "entities (jdlObject st) (e_name e) = Some (assembledEntity ext (d_constants doc) e)"
    using assembledEntities_last [OF assms(3,4), of ext] parse_result(4) [OF assms(1,2)] by simp
  moreover have "je_fields (assembledEntity ext (d_constants doc) e) (lowerFirst (f_name f))
                   = Some (assembledField ext (d_constants doc) f)"
    using assms(6) by (intro assembledField_last [OF assms(5) _ assms(7)]) (simp add: isId_def)
  moreover have "jf_validations (assembledField ext (d_constants doc) f) (v_key v)
                   = Some (assembledValidation (d_constants doc) v)"
    by (rule assembledValidation_last [OF assms(8,9)])
  moreover have "jv_name (assembledValidation (d_constants doc) v) = v_key v"
    "jv_value (assembledValidation (d_constants doc) v)
       = (if v_constant v then d_constants doc (propertyKey (v_value v)) else v_value v)"
    by (simp_all add: assembledValidation_def validationAfter_def)
  ultimately show ?thesis by blast
qed

theorem constant_validation_resolved_witness:
  "d_constants documentPerson ''MAXLEN'' = Some ''50'' \<and>
   (\<exists>st E F V. parseFromConfigurationObject exampleExternals (configurationOf documentPerson) = Inr st
      \<and> entities (jdlObject st) ''Person'' = Some E
      \<and> je_fields E ''email'' = Some F
      \<and> jf_validations F ''maxlength'' = Some V
      \<and> jv_value V = Some ''50'')"
proof -
  obtain st where st: "parseFromConfigurationObject exampleExternals
                         (configurationOf documentPerson) = Inr st"
    by (rule exE [OF parse_configurationOf [where doc = documentPerson and ext = exampleExternals]])
       (simp_all add: documentPerson_def example_defs)
  have doc: "c_document (configurationOf documentPerson) = Some documentPerson"
    by (simp add: configurationOf_def)
  let ?v = "\<lparr>v_key = ''maxlength'', v_value = Some ''MAXLEN'', v_constant = True\<rparr>"
  let ?f = "\<lparr>f_name = ''Email'', f_type = ''String'', f_javadoc = None, f_validations = [?v]\<rparr>"
  let ?e = "hd (d_entities documentPerson)"
  have h: "d_entities documentPerson = [] @ ?e # []" "e_name ?e \<notin> e_name ` set []"
    "e_body ?e = [\<lparr>f_name = ''Id'', f_type = ''Long'', f_javadoc = None,
                      f_validations = [\<lparr>v_key = ''required'', v_value = None, v_constant = False\<rparr>]\<rparr>,
                    \<lparr>f_name = ''firstName'', f_type = ''String'', f_javadoc = None,
                      f_validations = []\<rparr>] @ ?f # []"
    "toLowerCase (lowerFirst (f_name ?f)) \<noteq> ''id''"
    "lowerFirst (f_name ?f) \<notin> (\<lambda>g. lowerFirst (f_name g)) ` set []"
    "f_validations ?f = [] @ ?v # []" "v_key ?v \<notin> v_key ` set []"
    by (simp_all add: documentPerson_def example_defs char_defs)
  have c: "d_constants documentPerson ''MAXLEN'' = Some ''50''"
    by (simp add: documentPerson_def example_defs)
  have n: "e_name ?e = ''Person''" "lowerFirst (f_name ?f) = ''email''"
    by (simp_all add: documentPerson_def example_defs char_defs)
  show ?thesis
    using constant_validation_resolved [OF st doc h] c st
    by (auto simp: propertyKey_def char_defs documentPerson_def example_defs)
qed

text \<open>
  Claim C6. If the application type is \<open>microservice\<close> and the document's microservice map is
  empty, the options of the graph are those declared in the document followed by one binary
  \<open>microservice\<close> option whose value is the application name and whose entity names are the
  names of all declared entities; it is the only binary \<open>microservice\<close> option of the graph.
  Otherwise the options are exactly those declared in the document.
\<close>

theorem global_microservice_option:
  assumes "parseFromConfigurationObject ext config = Inr st"
    and "c_document config = Some doc"
  shows "(c_applicationType config = Some ''microservice'' \<and> d_binary doc ''microservice'' = []
            \<longrightarrow> options (jdlObject st) =
                  declaredOptions ext config doc @
                  [JDLBinaryOption ''microservice'' (c_applicationName config)
                     (map e_name (d_entities doc)) None]
              \<and> filter (isBinaryOptionNamed ''microservice'') (options (jdlObject st)) =
                  [JDLBinaryOption ''microservice'' (c_applicationName config)
                     (map e_name (d_entities doc)) None])
       \<and> (\<not> (c_applicationType config = Some ''microservice'' \<and> d_binary doc ''microservice'' = [])
            \<longrightarrow> options (jdlObject st) = declaredOptions ext config doc)"
proof -
  have opts: "options (jdlObject st) =
           documentOptions ext (c_applicationType config) doc @
           (if c_applicationType config = Some ApplicationTypes_MICROSERVICE
               \<and> d_binary doc ''microservice'' = []
            then [globalMicroserviceOption config doc] else [])"
    by (rule parse_result(6) [OF assms])
  show ?thesis
  proof (cases "c_applicationType config = Some ''microservice'' \<and> d_binary doc ''microservice'' = []")
    case True
    then have "filter (isBinaryOptionNamed ''microservice'')
                 (documentOptions ext (c_applicationType config) doc) = []"
      by (simp add: no_microservice_in_documentOptions)
    then show ?thesis
      using True
      by (simp add: opts declaredOptions_eq ApplicationTypes_MICROSERVICE_def
            BinaryOptions_MICROSERVICE_def globalMicroserviceOption_def isBinaryOptionNamed_def)
  next
    case False
    then show ?thesis
      by (auto simp: opts declaredOptions_eq ApplicationTypes_MICROSERVICE_def
            BinaryOptions_MICROSERVICE_def)
  qed
qed

theorem global_microservice_option_witness:
  "c_applicationType configurationInvoicing = Some ''microservice'' \<and>
   c_applicationName configurationInvoicing = Some ''invoicing'' \<and>
   d_binary documentInvoicing ''microservice'' = [] \<and>
   map e_name (d_entities documentInvoicing) = [''Invoice'', ''Line''] \<and>
   (\<exists>st. parseFromConfigurationObject exampleExternals configurationInvoicing = Inr st
      \<and> filter (isBinaryOptionNamed ''microservice'') (options (jdlObject st)) =
            [JDLBinaryOption ''microservice'' (Some ''invoicing'') [''Invoice'', ''Line''] None]
      \<and> options (jdlObject st) =
            [JDLUnaryOption ''skipClient'' [''Line''] [],
             JDLBinaryOption ''dto'' (Some ''mapstruct'') [''Invoice''] (Some []),
             JDLBinaryOption ''microservice'' (Some ''invoicing'') [''Invoice'', ''Line''] None])"
proof -
  obtain st where st: "parseFromConfigurationObject exampleExternals configurationInvoicing = Inr st"
    by (rule exE [OF parse_cases(1) [where config = configurationInvoicing
                       and doc = documentInvoicing and ext = exampleExternals]])
       (simp_all add: configurationInvoicing_def documentInvoicing_def example_defs)
  have doc: "c_document configurationInvoicing = Some documentInvoicing"
    by (simp add: configurationInvoicing_def)
  have h: "c_applicationType configurationInvoicing = Some ''microservice''"
    "c_applicationName configurationInvoicing = Some ''invoicing''"
    "d_binary documentInvoicing ''microservice'' = []"
    "map e_name (d_entities documentInvoicing) = [''Invoice'', ''Line'']"
    by (simp_all add: configurationInvoicing_def documentInvoicing_def example_defs)
  have d: "declaredOptions exampleExternals configurationInvoicing documentInvoicing =
             [JDLUnaryOption ''skipClient'' [''Line''] [],
              JDLBinaryOption ''dto'' (Some ''mapstruct'') [''Invoice''] (Some [])]"
    by (simp add: declaredOptions_eq documentOptions_def unaryOptionsOf_def binaryOptionsOf_def
          configurationInvoicing_def documentInvoicing_def example_defs
          UnaryOptions_SKIP_CLIENT_def ApplicationTypes_MICROSERVICE_def
          BinaryOptions_CLIENT_ROOT_FOLDER_def)
  show ?thesis
    using global_microservice_option [OF st doc] h d st
    by (simp add: isBinaryOptionNamed_def)
qed

text \<open>
  Claim C7. \<open>parseFromConfigurationObject\<close> fails with its missing-input error if and only if
  the configuration has no document; the failure is the error thrown before \<open>init\<close>, and
  carries no graph. With a document this error is never raised: the call returns a state
  when, once the entities are filled, both names of every relationship are entities of the
  graph, and otherwise fails in the constructor of a relationship.
\<close>

theorem missing_document_error:
  "(parseFromConfigurationObject ext config = Inl (Error ''The parsed JDL content must be passed.'')
      \<longleftrightarrow> c_document config = None)
   \<and> (c_document config = None \<longrightarrow>
        parseFromConfigurationObject ext config = Inl (Error ''The parsed JDL content must be passed.''))
   \<and> (\<forall>doc. c_document config = Some doc \<longrightarrow>
        (let s3 = fillClassesAndFields ext (fillEnums ext (fillApplications ext (init config doc)))
         in if \<forall>rel \<in> set (d_relationships doc).
                 entities (jdlObject s3) (s_name (r_from rel)) \<noteq> None
                 \<and> entities (jdlObject s3) (s_name (r_to rel)) \<noteq> None
            then \<exists>st. parseFromConfigurationObject ext config = Inr st
            else parseFromConfigurationObject ext config = Inl UnresolvedReference))"
proof (cases "c_document config")
  case None
  then show ?thesis by (simp add: parseFromConfigurationObject_def)
next
  case (Some doc)
  let ?s3 = "fillClassesAndFields ext (fillEnums ext (fillApplications ext (init config doc)))"
  have r: "(\<forall>rel \<in> set (d_relationships doc).
              entities (jdlObject ?s3) (s_name (r_from rel)) \<noteq> None
              \<and> entities (jdlObject ?s3) (s_name (r_to rel)) \<noteq> None)
           \<longleftrightarrow> (\<forall>rel \<in> set (d_relationships doc). resolved (assembledEntities ext doc) rel)"
    by (simp only: before_associations(4) resolved_def)
  have "parseFromConfigurationObject ext config
          \<noteq> Inl (Error ''The parsed JDL content must be passed.'')"
    using parse_cases [OF Some, of ext]
    by (cases "\<forall>rel \<in> set (d_relationships doc). resolved (assembledEntities ext doc) rel") auto
  moreover have "if \<forall>rel \<in> set (d_relationships doc).
                 entities (jdlObject ?s3) (s_name (r_from rel)) \<noteq> None
                 \<and> entities (jdlObject ?s3) (s_name (r_to rel)) \<noteq> None
            then \<exists>st. parseFromConfigurationObject ext config = Inr st
            else parseFromConfigurationObject ext config = Inl UnresolvedReference"
    unfolding r using parse_cases [OF Some, of ext] by (simp split: if_splits)
  ultimately show ?thesis using Some by (simp add: Let_def)
qed

theorem missing_document_error_witness:
  "parseFromConfigurationObject exampleExternals
     \<lparr>c_document = None, c_applicationType = Some ''monolith'', c_applicationName = Some ''shop'',
      c_generatorVersion = None\<rparr> = Inl (Error ''The parsed JDL content must be passed.'')
   \<and> (\<exists>st. parseFromConfigurationObject exampleExternals (configurationOf emptyDocument) = Inr st)
   \<and> parseFromConfigurationObject exampleExternals (configurationOf emptyDocument)
       \<noteq> Inl (Error ''The parsed JDL content must be passed.'')"
proof -
  have 1: "parseFromConfigurationObject exampleExternals
     \<lparr>c_document = None, c_applicationType = Some ''monolith'', c_applicationName = Some ''shop'',
      c_generatorVersion = None\<rparr> = Inl (Error ''The parsed JDL content must be passed.'')"
    using missing_document_error [of exampleExternals
          "\<lparr>c_document = None, c_applicationType = Some ''monolith'',
            c_applicationName = Some ''shop'', c_generatorVersion = None\<rparr>"]
    by simp
  note T = missing_document_error [of exampleExternals "configurationOf emptyDocument"]
  have d: "c_document (configurationOf emptyDocument) = Some emptyDocument"
    by (simp add: configurationOf_def)
  from T d have 3: "parseFromConfigurationObject exampleExternals (configurationOf emptyDocument)
       \<noteq> Inl (Error ''The parsed JDL content must be passed.'')"
    by simp
  from T have "\<forall>doc. c_document (configurationOf emptyDocument) = Some doc \<longrightarrow>
        (let s3 = fillClassesAndFields exampleExternals (fillEnums exampleExternals
                    (fillApplications exampleExternals (init (configurationOf emptyDocument) doc)))
         in if \<forall>rel \<in> set (d_relationships doc).
                 entities (jdlObject s3) (s_name (r_from rel)) \<noteq> None
                 \<and> entities (jdlObject s3) (s_name (r_to rel)) \<noteq> None
            then \<exists>st. parseFromConfigurationObject exampleExternals
                         (configurationOf emptyDocument) = Inr st
            else parseFromConfigurationObject exampleExternals (configurationOf emptyDocument)
                   = Inl UnresolvedReference)"
    by blast
  from this [rule_format, OF d]
  have 2: "\<exists>st. parseFromConfigurationObject exampleExternals (configurationOf emptyDocument) = Inr st"
    unfolding Let_def by (simp add: emptyDocument_def)
  from 1 2 3 show ?thesis by blast
qed

text \<open>
  Claim C8. Every kind of the catalog whose pattern is a string in which the identifier
  pattern matches has \<open>NAME\<close> as its fallback (\<open>longer_alt\<close>) and \<open>KEYWORD\<close> among its
  categories, and \<open>KEYWORD\<close> has \<open>NAME\<close> among its categories; so the kind is accepted where
  \<open>NAME\<close> is expected, and its literal text is tokenized as exactly one token of that kind,
  which a grammar position expecting \<open>NAME\<close> therefore accepts.
\<close>

theorem keywords_are_names:
  "\<forall>t \<in> set JDLLexer. \<forall>s. PATTERN t = Str s \<and> regexTest RX_name s \<longrightarrow>
     LONGER_ALT t = Some NAME
     \<and> KEYWORD \<in> set (CATEGORIES t) \<and> NAME \<in> set (CATEGORIES KEYWORD)
     \<and> isA t NAME
     \<and> tokenize JDLLexer s = ([\<lparr>image = s, startOffset = 0, tokenType = t\<rparr>], [])"
proof (intro ballI allI impI)
  fix t s
  assume t: "t \<in> set JDLLexer" and ps: "PATTERN t = Str s \<and> regexTest RX_name s"
  from JDLLexer_cases [OF t] ps obtain config where c: "t = createToken config"
    by auto
  with ps have pc: "pattern config = Str s" by simp
  have alt: "LONGER_ALT t = Some NAME"
    using ps pc by (simp add: c createToken_LONGER_ALT)
  have cat: "KEYWORD \<in> set (CATEGORIES t)"
    using ps pc by (simp add: c createToken_CATEGORIES)
  have kn: "NAME \<in> set (CATEGORIES KEYWORD)"
    by (simp add: KEYWORD_def chevrotain_createToken_def)
  have isa: "isA t NAME"
    using cat isA_KEYWORD_NAME by (rule isA_category)
  have tok: "tokenize JDLLexer s = ([\<lparr>image = s, startOffset = 0, tokenType = t\<rparr>], [])"
    using JDLLexer_wellFormed JDLLexer_ordered t ps by (intro keyword_tokenizes) simp_all
  from alt cat kn isa tok
  show "LONGER_ALT t = Some NAME
     \<and> KEYWORD \<in> set (CATEGORIES t) \<and> NAME \<in> set (CATEGORIES KEYWORD)
     \<and> isA t NAME
     \<and> tokenize JDLLexer s = ([\<lparr>image = s, startOffset = 0, tokenType = t\<rparr>], [])"
    by simp
qed

theorem keywords_are_names_witness:
  "PATTERN APPLICATION = Str ''application'' \<and> regexTest RX_name ''application''
   \<and> LONGER_ALT APPLICATION = Some NAME \<and> isA APPLICATION NAME
   \<and> tokenize JDLLexer ''application''
       = ([\<lparr>image = ''application'', startOffset = 0, tokenType = APPLICATION\<rparr>], [])"
proof -
  have p: "PATTERN APPLICATION = Str ''application''" "regexTest RX_name ''application''"
    by (simp_all add: APPLICATION_def isNameStart_def)
  from keywords_are_names APPLICATION_in_JDLLexer p show ?thesis by blast
qed

text \<open>
  Claim C9. Tokenizing \<open>applicationType\<close> yields exactly one token, of kind
  \<open>APPLICATION_TYPE\<close>, and not a token of kind \<open>APPLICATION\<close> followed by an identifier. A kind
  whose literal is a strict prefix of another kind's literal is registered after that kind
  (\<open>APPLICATION\<close> after \<open>APPLICATION_TYPE\<close>). So at every position, on every text, the kind the
  tokenizer takes is a kind of the catalog whose pattern matches there, no pattern of the
  catalog matches a longer text there, and no kind registered before it matches a text of
  the same length: the longest match wins, and among the longest the first registered.
  Whenever some pattern of the catalog matches, a kind is taken. The tokenizer applies this
  at every position of every text: on the empty text it stops; where a kind is the longest
  match and the first registered among the longest, it emits a token of that kind for the
  matched text (nothing for a skipped kind) and goes on behind it; where no pattern matches,
  it records one error for the characters up to the next position at which a pattern
  matches, and goes on from there. So \<open>application applicationType\<close> gives the two tokens
  \<open>APPLICATION\<close> at offset 0 and \<open>APPLICATION_TYPE\<close> at offset 12.
\<close>

theorem longest_priority_match:
  "tokenize JDLLexer ''applicationType''
     = ([\<lparr>image = ''applicationType'', startOffset = 0, tokenType = APPLICATION_TYPE\<rparr>], [])
   \<and> tokenize JDLLexer ''applicationType''
     \<noteq> ([\<lparr>image = ''application'', startOffset = 0, tokenType = APPLICATION\<rparr>,
          \<lparr>image = ''Type'', startOffset = 11, tokenType = NAME\<rparr>], [])
   \<and> (\<forall>i j a b. i < length JDLLexer \<and> j < length JDLLexer
          \<and> PATTERN (JDLLexer ! i) = Str a \<and> PATTERN (JDLLexer ! j) = Str b
          \<and> startsWith b a \<and> a \<noteq> b \<longrightarrow> j < i)
   \<and> (\<exists>i j. i < j \<and> j < length JDLLexer
          \<and> JDLLexer ! i = APPLICATION_TYPE \<and> JDLLexer ! j = APPLICATION)
   \<and> (\<forall>text t n. matchToken JDLLexer text = Some (t, n) \<longrightarrow>
          t \<in> set JDLLexer \<and> matchPattern (PATTERN t) text = Some n
          \<and> (\<forall>u \<in> set JDLLexer. \<forall>m. matchPattern (PATTERN u) text = Some m \<longrightarrow> m \<le> n)
          \<and> (\<forall>i j. i < j \<and> j < length JDLLexer \<and> JDLLexer ! j = t
                 \<longrightarrow> matchPattern (PATTERN (JDLLexer ! i)) text \<noteq> Some n))
   \<and> (\<forall>text. (\<exists>u \<in> set JDLLexer. matchPattern (PATTERN u) text \<noteq> None) \<longrightarrow>
          (\<exists>t n. matchToken JDLLexer text = Some (t, n)))
   \<and> (\<forall>text. tokenize JDLLexer text = tokenizeFrom JDLLexer text 0)
   \<and> (\<forall>off. tokenizeFrom JDLLexer [] off = ([], []))
   \<and> (\<forall>text off t n.
          t \<in> set JDLLexer \<and> matchPattern (PATTERN t) text = Some n
          \<and> (\<forall>u \<in> set JDLLexer. \<forall>m. matchPattern (PATTERN u) text = Some m \<longrightarrow> m \<le> n)
          \<and> (\<forall>i j. i < j \<and> j < length JDLLexer \<and> JDLLexer ! j = t
                 \<longrightarrow> matchPattern (PATTERN (JDLLexer ! i)) text \<noteq> Some n) \<longrightarrow>
          tokenizeFrom JDLLexer text off =
            (case tokenizeFrom JDLLexer (drop n text) (off + n) of
               (toks, errs) \<Rightarrow>
                 (if GROUP t = Some SKIPPED then (toks, errs)
                  else (\<lparr>image = take n text, startOffset = off, tokenType = t\<rparr> # toks, errs))))
   \<and> (\<forall>text off.
          text \<noteq> [] \<and> (\<forall>u \<in> set JDLLexer. matchPattern (PATTERN u) text = None) \<longrightarrow>
          (\<exists>k. 0 < k \<and> k \<le> length text
             \<and> (\<forall>i < k. \<forall>u \<in> set JDLLexer. matchPattern (PATTERN u) (drop i text) = None)
             \<and> (k < length text \<longrightarrow>
                  (\<exists>u \<in> set JDLLexer. matchPattern (PATTERN u) (drop k text) \<noteq> None))
             \<and> tokenizeFrom JDLLexer text off =
                 (case tokenizeFrom JDLLexer (drop k text) (off + k) of
                    (toks, errs) \<Rightarrow> (toks, \<lparr>offset = off, length_err = k\<rparr> # errs))))
   \<and> tokenize JDLLexer ''application applicationType''
     = ([\<lparr>image = ''application'', startOffset = 0, tokenType = APPLICATION\<rparr>,
         \<lparr>image = ''applicationType'', startOffset = 12, tokenType = APPLICATION_TYPE\<rparr>], [])"
proof -
  have at: "APPLICATION_TYPE \<in> set JDLLexer"
    using nth_mem [of 20 JDLLexer] by (simp add: APPLICATION_TYPE_at)
  have a: "tokenize JDLLexer ''applicationType''
     = ([\<lparr>image = ''applicationType'', startOffset = 0, tokenType = APPLICATION_TYPE\<rparr>], [])"
    by (rule keyword_tokenizes [OF JDLLexer_wellFormed JDLLexer_ordered at])
       (simp_all add: APPLICATION_TYPE_def isNameStart_def)
  have a': "tokenize JDLLexer ''applicationType''
     \<noteq> ([\<lparr>image = ''application'', startOffset = 0, tokenType = APPLICATION\<rparr>,
          \<lparr>image = ''Type'', startOffset = 11, tokenType = NAME\<rparr>], [])"
    unfolding a by simp
  have b: "\<forall>i j a b. i < length JDLLexer \<and> j < length JDLLexer
          \<and> PATTERN (JDLLexer ! i) = Str a \<and> PATTERN (JDLLexer ! j) = Str b
          \<and> startsWith b a \<and> a \<noteq> b \<longrightarrow> j < i"
    using literal_order [OF JDLLexer_ordered] by blast
  have c: "\<exists>i j. i < j \<and> j < length JDLLexer
          \<and> JDLLexer ! i = APPLICATION_TYPE \<and> JDLLexer ! j = APPLICATION"
    by (rule exI [of _ 20], rule exI [of _ 21]) (simp add: APPLICATION_TYPE_at)
  have d: "\<forall>text t n. matchToken JDLLexer text = Some (t, n) \<longrightarrow>
          t \<in> set JDLLexer \<and> matchPattern (PATTERN t) text = Some n
          \<and> (\<forall>u \<in> set JDLLexer. \<forall>m. matchPattern (PATTERN u) text = Some m \<longrightarrow> m \<le> n)
          \<and> (\<forall>i j. i < j \<and> j < length JDLLexer \<and> JDLLexer ! j = t
                 \<longrightarrow> matchPattern (PATTERN (JDLLexer ! i)) text \<noteq> Some n)"
    using longest_match_general [OF JDLLexer_wellFormed JDLLexer_ordered NAME_in_JDLLexer]
    by blast
  have e: "\<forall>text. (\<exists>u \<in> set JDLLexer. matchPattern (PATTERN u) text \<noteq> None) \<longrightarrow>
          (\<exists>t n. matchToken JDLLexer text = Some (t, n))"
  proof (intro allI impI)
    fix "text" assume "\<exists>u \<in> set JDLLexer. matchPattern (PATTERN u) text \<noteq> None"
    then have "matchToken JDLLexer text \<noteq> None" by (simp add: matchToken_none_iff)
    then show "\<exists>t n. matchToken JDLLexer text = Some (t, n)" by auto
  qed
  have f: "\<forall>text. tokenize JDLLexer text = tokenizeFrom JDLLexer text 0"
    by (simp add: tokenize_def)
  have g: "\<forall>off. tokenizeFrom JDLLexer [] off = ([], [])" by simp
  have h: "\<forall>text off t n.
          t \<in> set JDLLexer \<and> matchPattern (PATTERN t) text = Some n
          \<and> (\<forall>u \<in> set JDLLexer. \<forall>m. matchPattern (PATTERN u) text = Some m \<longrightarrow> m \<le> n)
          \<and> (\<forall>i j. i < j \<and> j < length JDLLexer \<and> JDLLexer ! j = t
                 \<longrightarrow> matchPattern (PATTERN (JDLLexer ! i)) text \<noteq> Some n) \<longrightarrow>
          tokenizeFrom JDLLexer text off =
            (case tokenizeFrom JDLLexer (drop n text) (off + n) of
               (toks, errs) \<Rightarrow>
                 (if GROUP t = Some SKIPPED then (toks, errs)
                  else (\<lparr>image = take n text, startOffset = off, tokenType = t\<rparr> # toks, errs)))"
  proof (intro allI impI, elim conjE)
    fix "text" off t n
    assume "t \<in> set JDLLexer" "matchPattern (PATTERN t) text = Some n"
      "\<forall>u \<in> set JDLLexer. \<forall>m. matchPattern (PATTERN u) text = Some m \<longrightarrow> m \<le> n"
      "\<forall>i j. i < j \<and> j < length JDLLexer \<and> JDLLexer ! j = t
                 \<longrightarrow> matchPattern (PATTERN (JDLLexer ! i)) text \<noteq> Some n"
    then have "matchToken JDLLexer text = Some (t, n)"
      by (rule longest_first_determines
                 [OF JDLLexer_wellFormed JDLLexer_ordered NAME_in_JDLLexer])
    then show "tokenizeFrom JDLLexer text off =
            (case tokenizeFrom JDLLexer (drop n text) (off + n) of
               (toks, errs) \<Rightarrow>
                 (if GROUP t = Some SKIPPED then (toks, errs)
                  else (\<lparr>image = take n text, startOffset = off, tokenType = t\<rparr> # toks, errs)))"
      by (rule tokenizeFrom_step)
  qed
  have i: "\<forall>text off.
          text \<noteq> [] \<and> (\<forall>u \<in> set JDLLexer. matchPattern (PATTERN u) text = None) \<longrightarrow>
          (\<exists>k. 0 < k \<and> k \<le> length text
             \<and> (\<forall>i < k. \<forall>u \<in> set JDLLexer. matchPattern (PATTERN u) (drop i text) = None)
             \<and> (k < length text \<longrightarrow>
                  (\<exists>u \<in> set JDLLexer. matchPattern (PATTERN u) (drop k text) \<noteq> None))
             \<and> tokenizeFrom JDLLexer text off =
                 (case tokenizeFrom JDLLexer (drop k text) (off + k) of
                    (toks, errs) \<Rightarrow> (toks, \<lparr>offset = off, length_err = k\<rparr> # errs)))"
  proof (intro allI impI, elim conjE)
    fix "text" :: string and off
    assume "text \<noteq> []" "\<forall>u \<in> set JDLLexer. matchPattern (PATTERN u) text = None"
    then show "\<exists>k. 0 < k \<and> k \<le> length text
             \<and> (\<forall>i < k. \<forall>u \<in> set JDLLexer. matchPattern (PATTERN u) (drop i text) = None)
             \<and> (k < length text \<longrightarrow>
                  (\<exists>u \<in> set JDLLexer. matchPattern (PATTERN u) (drop k text) \<noteq> None))
             \<and> tokenizeFrom JDLLexer text off =
                 (case tokenizeFrom JDLLexer (drop k text) (off + k) of
                    (toks, errs) \<Rightarrow> (toks, \<lparr>offset = off, length_err = k\<rparr> # errs))"
      using tokenizeFrom_error [of "text" JDLLexer off]
      by (simp add: matchToken_none_iff)
  qed
  note j = tokenize_application_applicationType
  show ?thesis
    by (intro conjI) (rule a a' b c d e f g h i j)+
qed

theorem longest_priority_match_witness:
  "PATTERN (JDLLexer ! 21) = Str ''application''
   \<and> PATTERN (JDLLexer ! 20) = Str ''applicationType''
   \<and> startsWith ''applicationType'' ''application''
   \<and> (20::nat) < 21
   \<and> matchToken JDLLexer ''applicationType'' = Some (APPLICATION_TYPE, 15)
   \<and> matchPattern (PATTERN APPLICATION) ''applicationType'' = Some 11
   \<and> matchPattern (PATTERN NAME) ''applicationType'' = Some 15
   \<and> matchToken JDLLexer ''application applicationType'' = Some (APPLICATION, 11)
   \<and> matchPattern (PATTERN APPLICATION) ''application applicationType'' = Some 11
   \<and> tokenizeFrom JDLLexer ''application applicationType'' 0 =
       (case tokenizeFrom JDLLexer '' applicationType'' 11 of
          (toks, errs) \<Rightarrow>
            (\<lparr>image = ''application'', startOffset = 0, tokenType = APPLICATION\<rparr> # toks, errs))"
proof -
  have p: "PATTERN (JDLLexer ! 21) = Str ''application''"
    "PATTERN (JDLLexer ! 20) = Str ''applicationType''"
    "startsWith ''applicationType'' ''application''"
    "''application'' \<noteq> ''applicationType''"
    "(21::nat) < length JDLLexer" "(20::nat) < length JDLLexer"
    by (simp_all add: APPLICATION_TYPE_at APPLICATION_TYPE_def APPLICATION_def)
  have at: "APPLICATION_TYPE \<in> set JDLLexer"
    using nth_mem [of 20 JDLLexer] by (simp add: APPLICATION_TYPE_at)
  have m: "matchToken JDLLexer ''applicationType'' = Some (APPLICATION_TYPE, 15)"
    using keyword_first_match [OF JDLLexer_wellFormed JDLLexer_ordered at,
            of "''applicationType''"]
    by (simp add: APPLICATION_TYPE_def isNameStart_def)
  have q: "matchPattern (PATTERN APPLICATION) ''applicationType'' = Some 11"
    "matchPattern (PATTERN NAME) ''applicationType'' = Some 15"
    by (simp_all add: APPLICATION_def isNameStart_def isNameChar_def isDigit_def)
  note m2 = match_application_space
  have g: "GROUP APPLICATION = None" by (simp add: APPLICATION_def)
  note T = longest_priority_match
  note order = T [THEN conjunct2, THEN conjunct2, THEN conjunct1]
  note longest = T [THEN conjunct2, THEN conjunct2, THEN conjunct2, THEN conjunct2, THEN conjunct1]
  note step = T [THEN conjunct2, THEN conjunct2, THEN conjunct2, THEN conjunct2, THEN conjunct2,
                 THEN conjunct2, THEN conjunct2, THEN conjunct2, THEN conjunct1]
  have lt: "(20::nat) < 21"
    using order [rule_format, of 21 20 "''application''" "''applicationType''"] p by simp
  have mm: "matchPattern (PATTERN APPLICATION_TYPE) ''applicationType'' = Some 15"
    using longest [rule_format, OF m] by simp
  have hyp:
    "APPLICATION \<in> set JDLLexer
     \<and> matchPattern (PATTERN APPLICATION) ''application applicationType'' = Some 11
     \<and> (\<forall>u \<in> set JDLLexer. \<forall>m.
           matchPattern (PATTERN u) ''application applicationType'' = Some m \<longrightarrow> m \<le> 11)
     \<and> (\<forall>i j. i < j \<and> j < length JDLLexer \<and> JDLLexer ! j = APPLICATION
           \<longrightarrow> matchPattern (PATTERN (JDLLexer ! i)) ''application applicationType'' \<noteq> Some 11)"
    by (rule longest [rule_format, OF m2])
  have s: "tokenizeFrom JDLLexer ''application applicationType'' 0 =
       (case tokenizeFrom JDLLexer '' applicationType'' 11 of
          (toks, errs) \<Rightarrow>
            (\<lparr>image = ''application'', startOffset = 0, tokenType = APPLICATION\<rparr> # toks, errs))"
    using step [rule_format, OF hyp] by (simp add: g del: tokenizeFrom.simps(2))
  from hyp have h2: "matchPattern (PATTERN APPLICATION) ''application applicationType'' = Some 11"
    by (rule conjunct2 [THEN conjunct1])
  show ?thesis
    by (intro conjI) (rule p lt m q m2 h2 s)+
qed

text \<open>
  Claim C10. The call writes into the document it is given. The lists keep their lengths;
  when a generator version is supplied (a non-empty string), every application block's
  config has it under \<open>jhipsterVersion\<close> afterwards; every declared entity whose table name
  was unset has its \<open>tableName\<close> set to its name; every relationship with neither
  injected-field name set has its from side's \<open>injectedfield\<close> written (with the lower-first
  form of the from entity's name). The witness shows a document that differs after the call.
\<close>

theorem document_mutated:
  assumes "parseFromConfigurationObject ext config = Inr st"
    and "c_document config = Some doc"
  shows "length (d_applications (st_document st)) = length (d_applications doc)
       \<and> length (d_entities (st_document st)) = length (d_entities doc)
       \<and> length (d_relationships (st_document st)) = length (d_relationships doc)
       \<and> (truthy (c_generatorVersion config) \<longrightarrow>
            (\<forall>i < length (d_applications doc).
               a_config (d_applications (st_document st) ! i) ''jhipsterVersion''
                 = c_generatorVersion config))
       \<and> (\<forall>i < length (d_entities doc).
             \<not> truthy (e_tableName (d_entities doc ! i)) \<longrightarrow>
             e_tableName (d_entities (st_document st) ! i) = Some (e_name (d_entities doc ! i)))
       \<and> (\<forall>i < length (d_relationships doc).
             \<not> truthy (s_injectedfield (r_from (d_relationships doc ! i)))
             \<and> \<not> truthy (s_injectedfield (r_to (d_relationships doc ! i))) \<longrightarrow>
             s_injectedfield (r_from (d_relationships (st_document st) ! i))
               = Some (lowerFirst (s_name (r_from (d_relationships doc ! i)))))"
proof -
  have d: "st_document st =
           doc\<lparr>d_applications := map (applicationAfter (c_generatorVersion config)) (d_applications doc),
               d_entities := map (entityAfter (d_constants doc)) (d_entities doc),
               d_relationships := map relationshipAfter (d_relationships doc)\<rparr>"
    by (rule parse_result(2) [OF assms])
  have a: "truthy (c_generatorVersion config) \<longrightarrow>
            (\<forall>i < length (d_applications doc).
               a_config (d_applications (st_document st) ! i) ''jhipsterVersion''
                 = c_generatorVersion config)"
    by (auto simp: d applicationAfter_def truthy_def split: option.splits)
  have e: "\<forall>i < length (d_entities doc).
             \<not> truthy (e_tableName (d_entities doc ! i)) \<longrightarrow>
             e_tableName (d_entities (st_document st) ! i) = Some (e_name (d_entities doc ! i))"
    by (simp add: d entityAfter_def orElse_def)
  have r: "\<forall>i < length (d_relationships doc).
             \<not> truthy (s_injectedfield (r_from (d_relationships doc ! i)))
             \<and> \<not> truthy (s_injectedfield (r_to (d_relationships doc ! i))) \<longrightarrow>
             s_injectedfield (r_from (d_relationships (st_document st) ! i))
               = Some (lowerFirst (s_name (r_from (d_relationships doc ! i))))"
    by (simp add: d relationshipAfter_def)
  from a e r show ?thesis by (simp add: d)
qed

theorem document_mutated_witness:
  "\<exists>st. parseFromConfigurationObject exampleExternals configurationShop = Inr st
      \<and> map (\<lambda>app. a_config app ''jhipsterVersion'') (d_applications documentShop) = [None]
      \<and> map (\<lambda>app. a_config app ''jhipsterVersion'') (d_applications (st_document st))
            = [Some ''5.0.0'']
      \<and> map e_tableName (d_entities documentShop) = [None, None]
      \<and> map e_tableName (d_entities (st_document st)) = [Some ''Invoice'', Some ''Line'']
      \<and> map (\<lambda>r. s_injectedfield (r_from r)) (d_relationships documentShop) = [None]
      \<and> map (\<lambda>r. s_injectedfield (r_from r)) (d_relationships (st_document st))
            = [Some ''invoice'']
      \<and> st_document st \<noteq> documentShop"
proof -
  obtain st where st: "parseFromConfigurationObject exampleExternals configurationShop = Inr st"
    by (rule exE [OF parse_cases(1) [where config = configurationShop and doc = documentShop
                       and ext = exampleExternals]])
       (simp_all add: configurationShop_def resolved_iff documentShop_def example_defs)
  have doc: "c_document configurationShop = Some documentShop"
    by (simp add: configurationShop_def)
  note T = document_mutated [OF st doc]
  have before:
    "map (\<lambda>app. a_config app ''jhipsterVersion'') (d_applications documentShop) = [None]"
    "map e_tableName (d_entities documentShop) = [None, None]"
    "map (\<lambda>r. s_injectedfield (r_from r)) (d_relationships documentShop) = [None]"
    by (simp_all add: documentShop_def example_defs)
  from T have la: "length (d_applications (st_document st)) = 1"
    and le: "length (d_entities (st_document st)) = 2"
    and lr: "length (d_relationships (st_document st)) = 1"
    by (simp_all add: documentShop_def example_defs)
  from T have a0: "a_config (d_applications (st_document st) ! 0) ''jhipsterVersion'' = Some ''5.0.0''"
    by (simp add: documentShop_def configurationShop_def example_defs truthy_def)
  from T have e0: "e_tableName (d_entities (st_document st) ! 0) = Some ''Invoice''"
    and e1: "e_tableName (d_entities (st_document st) ! 1) = Some ''Line''"
    by (simp_all add: documentShop_def example_defs truthy_def)
  from T have r0: "s_injectedfield (r_from (d_relationships (st_document st) ! 0)) = Some ''invoice''"
    by (simp add: documentShop_def example_defs truthy_def char_defs)
  have ma: "map (\<lambda>app. a_config app ''jhipsterVersion'') (d_applications (st_document st))
            = [Some ''5.0.0'']"
    using la a0 by (cases "d_applications (st_document st)") simp_all
  have me: "map e_tableName (d_entities (st_document st)) = [Some ''Invoice'', Some ''Line'']"
  proof -
    obtain x y where "d_entities (st_document st) = [x, y]"
      using le by (auto simp: length_Suc_conv numeral_2_eq_2)
    then show ?thesis using e0 e1 by simp
  qed
  have mr: "map (\<lambda>r. s_injectedfield (r_from r)) (d_relationships (st_document st))
            = [Some ''invoice'']"
    using lr r0 by (cases "d_relationships (st_document st)") simp_all
  have ne: "st_document st \<noteq> documentShop"
    using me before(2) by auto
  show ?thesis
    by (rule exI [of _ st]) (simp add: st before ma me mr ne)
qed

end
